theory Spec2Isabelle
  imports Main "HOL-Library.AList"
begin

section \<open>The chat relay of server.js\<close>

text \<open>
  The server keeps one registry \<^verbatim>\<open>rooms\<close> (a JavaScript \<^verbatim>\<open>Map\<close>) and, on every
  socket, the property \<^verbatim>\<open>socket.state\<close>. Every handler runs to completion before the
  next event is dispatched, so a handler is a function from the server state to the server
  state. A JavaScript \<^verbatim>\<open>Map\<close> is an association list with distinct keys in insertion
  order: \<^verbatim>\<open>get\<close> is \<open>map_of\<close>, \<^verbatim>\<open>set\<close> is \<open>AList.update\<close> (an old key keeps its place,
  a new key goes to the end), \<^verbatim>\<open>delete\<close> is \<open>AList.delete\<close>.

  Strings are \<open>string\<close>: every character stands for one code unit below 256.
  \<^verbatim>\<open>null\<close> and \<^verbatim>\<open>undefined\<close> are \<open>None\<close>.
\<close>

subsection \<open>Data\<close>

text \<open>A value of \<^verbatim>\<open>rooms\<close>: \<^verbatim>\<open>{ passkey, clients: new Map() }\<close>; \<^verbatim>\<open>clients\<close> maps a socket id
  to a username.\<close>

record room =
  passkey :: "string option"
  clients :: "(string \<times> string) list"

text \<open>The object held in \<^verbatim>\<open>socket.state\<close>: \<^verbatim>\<open>{ step }\<close> or \<^verbatim>\<open>{ step, roomId }\<close>. The step
  is the string the source stores.\<close>

record sstate =
  step :: string
  roomId :: "string option"

text \<open>A socket: the two properties the source puts on it (\<^verbatim>\<open>socket.state\<close>,
  \<^verbatim>\<open>socket.roomId\<close>), and the two the library keeps: the broadcast groups it has joined
  and whether it is connected.\<close>

record socket =
  state :: "sstate option"
  sock_roomId :: "string option"
  joined :: "string list"
  connected :: bool

text \<open>One outbound event: \<^verbatim>\<open>socket.emit(event, payload)\<close> goes to one socket,
  \<^verbatim>\<open>io.to(roomId).emit(event, payload)\<close> to the sockets that have joined the group at that
  moment; \<open>receivers\<close> lists them.\<close>

datatype target = To_socket string | To_room string

record emission =
  dest :: target
  event :: string
  payload :: string
  receivers :: "string list"

record server =
  rooms :: "(string \<times> room) list"
  sockets :: "(string \<times> socket) list"
  sent :: "emission list"

definition init :: server where
  "init = \<lparr>rooms = [], sockets = [], sent = []\<rparr>"

subsection \<open>What the library does\<close>

text \<open>\<^verbatim>\<open>String.prototype.trim\<close>: white space and line terminators below 256 are
  tab, line feed, vertical tab, form feed, carriage return, space and no-break space.\<close>

definition isWhiteSpace :: "char \<Rightarrow> bool" where
  "isWhiteSpace c = (c \<in> set [CHR 0x09, CHR 0x0A, CHR 0x0B, CHR 0x0C, CHR 0x0D, CHR 0x20, CHR 0xA0])"

definition trim :: "string \<Rightarrow> string" where
  "trim t = rev (dropWhile isWhiteSpace (rev (dropWhile isWhiteSpace t)))"

definition socket_emit :: "string \<Rightarrow> string \<Rightarrow> string \<Rightarrow> server \<Rightarrow> server" where
  "socket_emit sid ev txt s =
     s\<lparr>sent := sent s @ [\<lparr>dest = To_socket sid, event = ev, payload = txt, receivers = [sid]\<rparr>]\<rparr>"

definition adapter_room :: "string \<Rightarrow> server \<Rightarrow> string list" where
  "adapter_room r s =
     map fst (filter (\<lambda>p. connected (snd p) \<and> r \<in> set (joined (snd p))) (sockets s))"

definition io_to_emit :: "string \<Rightarrow> string \<Rightarrow> string \<Rightarrow> server \<Rightarrow> server" where
  "io_to_emit r ev txt s =
     s\<lparr>sent := sent s @ [\<lparr>dest = To_room r, event = ev, payload = txt,
                           receivers = adapter_room r s\<rparr>]\<rparr>"

definition socket_join :: "string \<Rightarrow> string \<Rightarrow> server \<Rightarrow> server" where
  "socket_join sid r s =
     s\<lparr>sockets := AList.map_entry sid (\<lambda>k. k\<lparr>joined := List.insert r (joined k)\<rparr>) (sockets s)\<rparr>"

text \<open>Reading and writing \<^verbatim>\<open>socket.state\<close> of the socket with id \<open>sid\<close>.\<close>

definition socket_state :: "string \<Rightarrow> server \<Rightarrow> sstate option" where
  "socket_state sid s = (case map_of (sockets s) sid of None \<Rightarrow> None | Some k \<Rightarrow> state k)"

definition set_state :: "string \<Rightarrow> sstate option \<Rightarrow> server \<Rightarrow> server" where
  "set_state sid v s = s\<lparr>sockets := AList.map_entry sid (\<lambda>k. k\<lparr>state := v\<rparr>) (sockets s)\<rparr>"

definition set_sock_roomId :: "string \<Rightarrow> string option \<Rightarrow> server \<Rightarrow> server" where
  "set_sock_roomId sid v s =
     s\<lparr>sockets := AList.map_entry sid (\<lambda>k. k\<lparr>sock_roomId := v\<rparr>) (sockets s)\<rparr>"

definition is_connected :: "string \<Rightarrow> server \<Rightarrow> bool" where
  "is_connected sid s = (case map_of (sockets s) sid of None \<Rightarrow> False | Some k \<Rightarrow> connected k)"

subsection \<open>The functions of server.js\<close>

definition choice_prompt :: string where
  "choice_prompt = ''Enter option (1 for host, 2 for connect): ''"

text \<open>\<^verbatim>\<open>rooms.get(roomId)\<close> where \<^verbatim>\<open>roomId\<close> may be \<^verbatim>\<open>undefined\<close>: no key is.\<close>

definition rooms_get :: "string option \<Rightarrow> server \<Rightarrow> room option" where
  "rooms_get rid s = (case rid of None \<Rightarrow> None | Some r \<Rightarrow> map_of (rooms s) r)"

text \<open>\<^verbatim>\<open>findRoomForSocket\<close>: the first room, in insertion order, whose clients have the id.\<close>

fun findRoomForSocket :: "string \<Rightarrow> (string \<times> room) list \<Rightarrow> string option" where
  "findRoomForSocket socketId [] = None"
| "findRoomForSocket socketId (p # rest) =
     (if map_of (clients (snd p)) socketId \<noteq> None then Some (fst p)
      else findRoomForSocket socketId rest)"

text \<open>\<^verbatim>\<open>createRoom(socket, passkey)\<close>. The identifier \<^verbatim>\<open>uuidv4()\<close> returns is the
  parameter \<open>uuid\<close>. The result is the object \<^verbatim>\<open>{ step: "username", roomId }\<close>.\<close>

definition createRoom :: "string \<Rightarrow> string \<Rightarrow> string option \<Rightarrow> server \<Rightarrow> sstate \<times> server" where
  "createRoom uuid sid pk s =
     (let s1 = s\<lparr>rooms := AList.update uuid \<lparr>passkey = pk, clients = []\<rparr> (rooms s)\<rparr>;
          s2 = set_state sid (Some \<lparr>step = ''username'', roomId = Some uuid\<rparr>) s1;
          s3 = socket_emit sid ''message''
                 (''Room created with ID: '' @ uuid @ [CHR 0x0A]
                  @ ''Share this ID with others to join''
                  @ (case pk of None \<Rightarrow> '''' | Some p \<Rightarrow> if p \<noteq> [] then '' (passkey required)'' else '''')
                  @ ''.'') s2
      in (\<lparr>step = ''username'', roomId = Some uuid\<rparr>, s3))"

text \<open>\<^verbatim>\<open>joinRoom(socket, roomId, username)\<close>.\<close>

definition joinRoom_missing :: "string \<Rightarrow> server \<Rightarrow> server" where
  "joinRoom_missing sid s =
     socket_emit sid ''prompt'' choice_prompt
       (set_state sid (Some \<lparr>step = ''choice'', roomId = None\<rparr>)
          (socket_emit sid ''error'' ''Room no longer exists.'' s))"

definition joinRoom_present :: "string \<Rightarrow> string \<Rightarrow> string \<Rightarrow> server \<Rightarrow> server" where
  "joinRoom_present sid r username s =
     (let s1 = s\<lparr>rooms := AList.map_entry r
                    (\<lambda>rm. rm\<lparr>clients := AList.update sid username (clients rm)\<rparr>) (rooms s)\<rparr>;
          s2 = socket_join sid r s1;
          s3 = set_state sid (Some \<lparr>step = ''chat'', roomId = Some r\<rparr>) s2;
          s4 = io_to_emit r ''message'' (''*** '' @ username @ '' joined the chat ***'') s3
      in socket_emit sid ''message'' ''Connection successful. Welcome to the chat!'' s4)"

definition joinRoom :: "string \<Rightarrow> string option \<Rightarrow> string \<Rightarrow> server \<Rightarrow> server" where
  "joinRoom sid rid username s =
     (case rid of
        None \<Rightarrow> joinRoom_missing sid s
      | Some r \<Rightarrow>
          (case map_of (rooms s) r of
             None \<Rightarrow> joinRoom_missing sid s
           | Some room \<Rightarrow> joinRoom_present sid r username s))"

text \<open>
  \<^verbatim>\<open>handleResponse(socket, data)\<close>. The local \<^verbatim>\<open>state\<close> is the object \<^verbatim>\<open>socket.state\<close>
  holds on entry; the branches assign to its fields, and the last statement
  \<^verbatim>\<open>socket.state = state\<close> stores that object again whatever a branch, \<^verbatim>\<open>createRoom\<close> or
  \<^verbatim>\<open>joinRoom\<close> has put into \<^verbatim>\<open>socket.state\<close> meanwhile. Each branch below returns the
  local object and the server; \<open>handleResponse\<close> does the final store.
\<close>

definition hr_choice :: "string \<Rightarrow> string \<Rightarrow> sstate \<Rightarrow> server \<Rightarrow> sstate \<times> server" where
  "hr_choice sid data st s =
     (if data = ''1'' then
        (st\<lparr>step := ''host_type''\<rparr>, socket_emit sid ''prompt'' ''Make room [1] open or [2] private: '' s)
      else if data = ''2'' then
        (st\<lparr>step := ''connect_room''\<rparr>, socket_emit sid ''prompt'' ''Enter room ID: '' s)
      else
        (st, socket_emit sid ''prompt'' choice_prompt
               (socket_emit sid ''error'' ''Invalid option. Choose 1 or 2.'' s)))"

text \<open>After \<^verbatim>\<open>const res = createRoom(...)\<close> the source stores \<^verbatim>\<open>res.state\<close>, a property the
  result does not have (\<^verbatim>\<open>undefined\<close>), and \<^verbatim>\<open>res.roomId\<close>.\<close>

definition hr_created :: "string \<Rightarrow> sstate \<Rightarrow> sstate \<times> server \<Rightarrow> sstate \<times> server" where
  "hr_created sid st res =
     (st, socket_emit sid ''prompt'' ''Enter your username: ''
            (set_sock_roomId sid (roomId (fst res)) (set_state sid None (snd res))))"

definition hr_host_type :: "string \<Rightarrow> string \<Rightarrow> string \<Rightarrow> sstate \<Rightarrow> server \<Rightarrow> sstate \<times> server" where
  "hr_host_type uuid sid data st s =
     (if data = ''1'' then hr_created sid st (createRoom uuid sid None s)
      else if data = ''2'' then
        (st\<lparr>step := ''host_passkey''\<rparr>, socket_emit sid ''prompt'' ''Set a passkey: '' s)
      else
        (st, socket_emit sid ''prompt'' ''Make room [1] open or [2] private: ''
               (socket_emit sid ''error'' ''Invalid option. Choose 1 or 2.'' s)))"

definition hr_host_passkey :: "string \<Rightarrow> string \<Rightarrow> string \<Rightarrow> sstate \<Rightarrow> server \<Rightarrow> sstate \<times> server" where
  "hr_host_passkey uuid sid data st s =
     (if data = [] then
        (st, socket_emit sid ''prompt'' ''Set a passkey: ''
               (socket_emit sid ''error'' ''Passkey cannot be empty.'' s))
      else hr_created sid st (createRoom uuid sid (Some data) s))"

definition hr_connect_room :: "string \<Rightarrow> string \<Rightarrow> sstate \<Rightarrow> server \<Rightarrow> sstate \<times> server" where
  "hr_connect_room sid data st s =
     (case map_of (rooms s) data of
        None \<Rightarrow>
          (st, socket_emit sid ''prompt'' ''Enter room ID: ''
                 (socket_emit sid ''error'' ''Room does not exist.'' s))
      | Some room \<Rightarrow>
          (if (case passkey room of None \<Rightarrow> False | Some p \<Rightarrow> p \<noteq> []) then
             (st\<lparr>roomId := Some data, step := ''connect_passkey''\<rparr>,
              socket_emit sid ''prompt'' ''Enter passkey: '' s)
           else
             (st\<lparr>roomId := Some data, step := ''username''\<rparr>,
              socket_emit sid ''prompt'' ''Enter your username: '' s)))"

definition hr_connect_passkey :: "string \<Rightarrow> string \<Rightarrow> sstate \<Rightarrow> server \<Rightarrow> sstate \<times> server" where
  "hr_connect_passkey sid data st s =
     (if (case rooms_get (roomId st) s of None \<Rightarrow> True | Some room \<Rightarrow> Some data \<noteq> passkey room) then
        (st, socket_emit sid ''prompt'' ''Enter passkey: ''
               (socket_emit sid ''error'' ''Invalid passkey.'' s))
      else
        (st\<lparr>step := ''username''\<rparr>, socket_emit sid ''prompt'' ''Enter your username: '' s))"

definition hr_username :: "string \<Rightarrow> string \<Rightarrow> sstate \<Rightarrow> server \<Rightarrow> sstate \<times> server" where
  "hr_username sid data st s =
     (if data = [] then
        (st, socket_emit sid ''prompt'' ''Enter your username: ''
               (socket_emit sid ''error'' ''Username cannot be empty.'' s))
      else
        (st\<lparr>step := ''chat''\<rparr>,
         socket_emit sid ''message'' ''type and hit enter to send a message''
           (joinRoom sid (roomId st) data s)))"

definition hr_invalid :: "string \<Rightarrow> sstate \<Rightarrow> server \<Rightarrow> sstate \<times> server" where
  "hr_invalid sid st s =
     (st, socket_emit sid ''prompt'' choice_prompt
            (set_state sid (Some \<lparr>step = ''choice'', roomId = None\<rparr>)
               (socket_emit sid ''error'' ''Invalid state. Please reconnect.'' s)))"

definition hr_branch :: "string \<Rightarrow> string \<Rightarrow> string \<Rightarrow> sstate \<Rightarrow> server \<Rightarrow> sstate \<times> server" where
  "hr_branch uuid sid data st s =
     (if step st = ''choice'' then hr_choice sid data st s
      else if step st = ''host_type'' then hr_host_type uuid sid data st s
      else if step st = ''host_passkey'' then hr_host_passkey uuid sid data st s
      else if step st = ''connect_room'' then hr_connect_room sid data st s
      else if step st = ''connect_passkey'' then hr_connect_passkey sid data st s
      else if step st = ''username'' then hr_username sid data st s
      else hr_invalid sid st s)"

definition handleResponse :: "string \<Rightarrow> string \<Rightarrow> string \<Rightarrow> server \<Rightarrow> server" where
  "handleResponse uuid sid data s =
     (let st = (case socket_state sid s of
                  None \<Rightarrow> \<lparr>step = ''choice'', roomId = None\<rparr>
                | Some st0 \<Rightarrow> st0);
          res = hr_branch uuid sid data st s
      in set_state sid (Some (fst res)) (snd res))"

subsection \<open>The handlers registered on a connection\<close>

definition on_connection :: "string \<Rightarrow> server \<Rightarrow> server" where
  "on_connection sid s =
     socket_emit sid ''prompt'' choice_prompt
       (set_state sid (Some \<lparr>step = ''choice'', roomId = None\<rparr>) s)"

definition on_response :: "string \<Rightarrow> string \<Rightarrow> string \<Rightarrow> server \<Rightarrow> server" where
  "on_response uuid sid data s = handleResponse uuid sid (trim data) s"

text \<open>The chat handler. Payloads are text, as the transport contract has it; a non-empty
  string is truthy. \<^verbatim>\<open>rooms.get(roomId)?.clients.get(socket.id)\<close> is \<open>room_username\<close>.\<close>

definition room_username :: "string option \<Rightarrow> string \<Rightarrow> server \<Rightarrow> string option" where
  "room_username rid sid s =
     (case rooms_get rid s of None \<Rightarrow> None | Some room \<Rightarrow> map_of (clients room) sid)"

definition on_chat_message :: "string \<Rightarrow> string \<Rightarrow> server \<Rightarrow> server" where
  "on_chat_message sid data s =
     (case socket_state sid s of
        None \<Rightarrow> s
      | Some st \<Rightarrow>
          if step st = ''chat'' \<and> data \<noteq> [] then
            (case room_username (roomId st) sid s of
               None \<Rightarrow> socket_emit sid ''error'' ''Not in a valid room or username not set.'' s
             | Some username \<Rightarrow>
                 (case roomId st of
                    None \<Rightarrow> socket_emit sid ''error'' ''Not in a valid room or username not set.'' s
                  | Some r \<Rightarrow>
                      if username \<noteq> [] \<and> r \<noteq> [] then
                        io_to_emit r ''message'' (''['' @ username @ ''] '' @ data) s
                      else socket_emit sid ''error'' ''Not in a valid room or username not set.'' s))
          else s)"

text \<open>The part the quit and the disconnect handler share: \<^verbatim>\<open>room.clients.delete\<close> and the
  notice, guarded by \<^verbatim>\<open>if (roomId)\<close> and \<^verbatim>\<open>if (username)\<close> (an empty string is falsy).
  The result tells whether the inner block ran, and for which room. \<^verbatim>\<open>rooms.get\<close> of the
  id \<^verbatim>\<open>findRoomForSocket\<close> returns is a room: the branch for a missing room is never
  taken when the keys are distinct.\<close>

definition leave_notice :: "string \<Rightarrow> server \<Rightarrow> string option \<times> server" where
  "leave_notice sid s =
     (case findRoomForSocket sid (rooms s) of
        None \<Rightarrow> (None, s)
      | Some r \<Rightarrow>
          if r = [] then (None, s)
          else
            (case map_of (rooms s) r of
               None \<Rightarrow> (None, s)
             | Some room \<Rightarrow>
                 (case map_of (clients room) sid of
                    None \<Rightarrow> (None, s)
                  | Some username \<Rightarrow>
                      if username = [] then (None, s)
                      else
                        (Some r,
                         io_to_emit r ''message'' (''*** '' @ username @ '' left the chat ***'')
                           (s\<lparr>rooms := AList.map_entry r
                                 (\<lambda>rm. rm\<lparr>clients := AList.delete sid (clients rm)\<rparr>) (rooms s)\<rparr>)))))"

definition on_disconnect :: "string \<Rightarrow> server \<Rightarrow> server" where
  "on_disconnect sid s =
     (case leave_notice sid s of
        (None, s1) \<Rightarrow> s1
      | (Some r, s1) \<Rightarrow>
          (case map_of (rooms s1) r of
             None \<Rightarrow> s1
           | Some room \<Rightarrow>
               if clients room = [] then s1\<lparr>rooms := AList.delete r (rooms s1)\<rparr> else s1))"

text \<open>Closing a socket (\<^verbatim>\<open>socket.disconnect(true)\<close>, or the transport losing the
  connection): the library takes a connected socket out of every group, marks it
  disconnected and then calls the disconnect handler; on a socket already closed it does
  nothing.\<close>

definition socket_close :: "string \<Rightarrow> server \<Rightarrow> server" where
  "socket_close sid s =
     (if is_connected sid s then
        on_disconnect sid
          (s\<lparr>sockets := AList.map_entry sid (\<lambda>k. k\<lparr>joined := [], connected := False\<rparr>) (sockets s)\<rparr>)
      else s)"

definition on_quit :: "string \<Rightarrow> server \<Rightarrow> server" where
  "on_quit sid s =
     socket_close sid
       (set_state sid (Some \<lparr>step = ''choice'', roomId = None\<rparr>) (snd (leave_notice sid s)))"

subsection \<open>Dispatch\<close>

text \<open>The inbound events. The transport gives every connection an identifier no other
  connection has had, and delivers events of connected sockets only; an event that breaks
  this is dropped. A new socket is connected and in the group named by its own id.\<close>

datatype inbound =
    Connection string
  | Response string string
  | Chat_message string string
  | Quit string
  | Disconnect string

definition new_socket :: "string \<Rightarrow> server \<Rightarrow> server" where
  "new_socket sid s =
     s\<lparr>sockets := sockets s @ [(sid, \<lparr>state = None, sock_roomId = None, joined = [sid], connected = True\<rparr>)]\<rparr>"

fun handle :: "string \<Rightarrow> inbound \<Rightarrow> server \<Rightarrow> server" where
  "handle uuid (Connection sid) s =
     (if map_of (sockets s) sid \<noteq> None then s else on_connection sid (new_socket sid s))"
| "handle uuid (Response sid data) s =
     (if is_connected sid s then on_response uuid sid data s else s)"
| "handle uuid (Chat_message sid data) s =
     (if is_connected sid s then on_chat_message sid data s else s)"
| "handle uuid (Quit sid) s = (if is_connected sid s then on_quit sid s else s)"
| "handle uuid (Disconnect sid) s = socket_close sid s"

text \<open>A run: each inbound event comes with the identifier \<^verbatim>\<open>uuidv4()\<close> would return
  while it is handled.\<close>

fun run :: "(string \<times> inbound) list \<Rightarrow> server \<Rightarrow> server" where
  "run [] s = s"
| "run (p # es) s = run es (handle (fst p) (snd p) s)"

subsection \<open>Sample runs\<close>

text \<open>A host who asks for an open room; a host who sets the passkey \<open>secret\<close> on room
  \<open>r1\<close> and a guest who has named that room; two guests \<open>b\<close> (bob) and \<open>c\<close> (carol)
  chatting in the open room \<open>r1\<close>.\<close>

definition scenario_host :: "(string \<times> inbound) list" where
  "scenario_host = [(''u0'', Connection ''h''), (''u0'', Response ''h'' ''1'')]"

definition scenario_private :: "(string \<times> inbound) list" where
  "scenario_private =
     [(''u0'', Connection ''h''), (''u0'', Response ''h'' ''1''), (''u0'', Response ''h'' ''2''),
      (''r1'', Response ''h'' ''secret''),
      (''u0'', Connection ''a''), (''u0'', Response ''a'' ''2''), (''u0'', Response ''a'' ''r1'')]"

definition scenario_chat :: "(string \<times> inbound) list" where
  "scenario_chat =
     [(''u0'', Connection ''h''), (''u0'', Response ''h'' ''1''), (''r1'', Response ''h'' ''1''),
      (''u0'', Connection ''b''), (''u0'', Response ''b'' ''2''), (''u0'', Response ''b'' ''r1''),
      (''u0'', Response ''b'' ''bob''),
      (''u0'', Connection ''c''), (''u0'', Response ''c'' ''2''), (''u0'', Response ''c'' ''r1''),
      (''u0'', Response ''c'' ''carol'')]"

text \<open>One guest \<open>b\<close> (bob) alone in the open room \<open>r1\<close>; and the same run continued: a
  second guest \<open>c\<close> names the room, then bob's connection is lost, which deletes the room
  while \<open>c\<close> is asked for a username.\<close>

definition scenario_one_guest :: "(string \<times> inbound) list" where
  "scenario_one_guest =
     [(''u0'', Connection ''h''), (''u0'', Response ''h'' ''1''), (''r1'', Response ''h'' ''1''),
      (''u0'', Connection ''b''), (''u0'', Response ''b'' ''2''), (''u0'', Response ''b'' ''r1''),
      (''u0'', Response ''b'' ''bob'')]"

definition scenario_stale :: "(string \<times> inbound) list" where
  "scenario_stale =
     [(''u0'', Connection ''h''), (''u0'', Response ''h'' ''1''), (''r1'', Response ''h'' ''1''),
      (''u0'', Connection ''b''), (''u0'', Response ''b'' ''2''), (''u0'', Response ''b'' ''r1''),
      (''u0'', Response ''b'' ''bob''),
      (''u0'', Connection ''c''), (''u0'', Response ''c'' ''2''), (''u0'', Response ''c'' ''r1''),
      (''u0'', Disconnect ''b'')]"

subsection \<open>Invariants\<close>

text \<open>The steps the source names.\<close>

definition steps :: "string list" where
  "steps = [''choice'', ''host_type'', ''host_passkey'', ''connect_room'', ''connect_passkey'',
            ''username'', ''chat'']"

text \<open>Every socket has a state object whose step is one of them.\<close>

definition steps_ok :: "server \<Rightarrow> bool" where
  "steps_ok s = (\<forall>sid \<in> set (map fst (sockets s)).
       case socket_state sid s of None \<Rightarrow> False | Some st \<Rightarrow> step st \<in> set steps)"

text \<open>The registry: room ids are distinct and not empty and usernames are not empty; every
  member of room \<open>r\<close> is a connected socket in the group \<open>r\<close>, at step \<open>chat\<close>, whose
  state names \<open>r\<close>.\<close>

definition rooms_wf :: "(string \<times> room) list \<Rightarrow> bool" where
  "rooms_wf rs = (distinct (map fst rs)
      \<and> (\<forall>p \<in> set rs. fst p \<noteq> [] \<and> (\<forall>c \<in> set (clients (snd p)). snd c \<noteq> [])))"

definition member_ok :: "server \<Rightarrow> string \<Rightarrow> string \<Rightarrow> bool" where
  "member_ok s r sid =
     (case map_of (sockets s) sid of
        None \<Rightarrow> False
      | Some k \<Rightarrow> connected k \<and> r \<in> set (joined k)
          \<and> (case state k of None \<Rightarrow> False | Some st \<Rightarrow> step st = ''chat'' \<and> roomId st = Some r))"

definition members_ok :: "server \<Rightarrow> bool" where
  "members_ok s = (\<forall>p \<in> set (rooms s). \<forall>c \<in> set (clients (snd p)). member_ok s (fst p) (fst c))"

definition registry_ok :: "server \<Rightarrow> bool" where
  "registry_ok s = (rooms_wf (rooms s) \<and> members_ok s)"

text \<open>A session that finished onboarding without becoming a member: if the socket is
  still connected, its state is \<open>st\<close> and the room its state names, if there is one, does
  not list it.\<close>

definition stale_session :: "string \<Rightarrow> sstate \<Rightarrow> server \<Rightarrow> bool" where
  "stale_session sid st s =
     (case map_of (sockets s) sid of
        None \<Rightarrow> False
      | Some k \<Rightarrow> \<not> connected k \<or> (state k = Some st \<and> room_username (roomId st) sid s = None))"

text \<open>The socket an inbound event comes from.\<close>

fun actor :: "inbound \<Rightarrow> string" where
  "actor (Connection sid) = sid"
| "actor (Response sid data) = sid"
| "actor (Chat_message sid data) = sid"
| "actor (Quit sid) = sid"
| "actor (Disconnect sid) = sid"

text \<open>A room that is in the registry and has no member.\<close>

definition empty_room :: "string \<Rightarrow> server \<Rightarrow> bool" where
  "empty_room r s = (case map_of (rooms s) r of None \<Rightarrow> False | Some rm \<Rightarrow> clients rm = [])"

text \<open>The one event that gives room \<open>r\<close> a member: a connected session at step
  \<open>username\<close> whose state names \<open>r\<close> answers with a non-empty username. \<open>no_join\<close>
  says that no event of a run, taken in the state it is handled in, is one.\<close>

fun joins_room :: "string \<Rightarrow> inbound \<Rightarrow> server \<Rightarrow> bool" where
  "joins_room r (Connection sid) s = False"
| "joins_room r (Response sid data) s =
     (is_connected sid s
      \<and> (case socket_state sid s of
            None \<Rightarrow> False
          | Some st \<Rightarrow> step st = ''username'' \<and> roomId st = Some r \<and> trim data \<noteq> []))"
| "joins_room r (Chat_message sid data) s = False"
| "joins_room r (Quit sid) s = False"
| "joins_room r (Disconnect sid) s = False"

fun no_join :: "string \<Rightarrow> (string \<times> inbound) list \<Rightarrow> server \<Rightarrow> bool" where
  "no_join r [] s = True"
| "no_join r (p # es) s =
     (\<not> joins_room r (snd p) s \<and> no_join r es (handle (fst p) (snd p) s))"

section \<open>Properties\<close>

subsection \<open>What the primitives change\<close>

lemma socket_emit_simps:
  "rooms (socket_emit sid ev txt s) = rooms s"
  "sockets (socket_emit sid ev txt s) = sockets s"
  "sent (socket_emit sid ev txt s) =
     sent s @ [\<lparr>dest = To_socket sid, event = ev, payload = txt, receivers = [sid]\<rparr>]"
  by (simp_all add: socket_emit_def)

lemma io_to_emit_simps:
  "rooms (io_to_emit r ev txt s) = rooms s"
  "sockets (io_to_emit r ev txt s) = sockets s"
  "sent (io_to_emit r ev txt s) =
     sent s @ [\<lparr>dest = To_room r, event = ev, payload = txt, receivers = adapter_room r s\<rparr>]"
  by (simp_all add: io_to_emit_def)

lemma set_state_simps:
  "rooms (set_state sid v s) = rooms s"
  "sent (set_state sid v s) = sent s"
  "map_of (sockets (set_state sid v s)) x =
     (if x = sid then map_option (\<lambda>k. k\<lparr>state := v\<rparr>) (map_of (sockets s) sid)
      else map_of (sockets s) x)"
  by (simp_all add: set_state_def map_of_map_entry split: option.split)

lemma set_sock_roomId_simps:
  "rooms (set_sock_roomId sid v s) = rooms s"
  "sent (set_sock_roomId sid v s) = sent s"
  "map_of (sockets (set_sock_roomId sid v s)) x =
     (if x = sid then map_option (\<lambda>k. k\<lparr>sock_roomId := v\<rparr>) (map_of (sockets s) sid)
      else map_of (sockets s) x)"
  by (simp_all add: set_sock_roomId_def map_of_map_entry split: option.split)

lemma socket_join_simps:
  "rooms (socket_join sid r s) = rooms s"
  "sent (socket_join sid r s) = sent s"
  "map_of (sockets (socket_join sid r s)) x =
     (if x = sid then map_option (\<lambda>k. k\<lparr>joined := List.insert r (joined k)\<rparr>) (map_of (sockets s) sid)
      else map_of (sockets s) x)"
  by (simp_all add: socket_join_def map_of_map_entry split: option.split)

lemmas prim_simps = socket_emit_simps io_to_emit_simps set_state_simps set_sock_roomId_simps
  socket_join_simps

lemma socket_state_set_state:
  "socket_state x (set_state sid v s) =
     (if x = sid then (case map_of (sockets s) sid of None \<Rightarrow> None | Some k \<Rightarrow> v)
      else socket_state x s)"
  by (simp add: socket_state_def set_state_simps split: option.split)

lemma socket_state_SomeD:
  "socket_state sid s = Some st \<Longrightarrow> \<exists>k. map_of (sockets s) sid = Some k \<and> state k = Some st"
  by (auto simp: socket_state_def split: option.splits)

lemma run_append: "run (es @ es') s = run es' (run es s)"
  by (induction es arbitrary: s) simp_all

lemma handleResponse_unfold:
  "socket_state sid s = Some st \<Longrightarrow>
   handleResponse uuid sid data s =
     set_state sid (Some (fst (hr_branch uuid sid data st s))) (snd (hr_branch uuid sid data st s))"
  by (simp add: handleResponse_def Let_def)

lemma hr_created_effect:
  assumes "map_of (sockets s) sid = Some k"
  shows "rooms (snd (hr_created sid st (createRoom uuid sid pk s))) =
           AList.update uuid \<lparr>passkey = pk, clients = []\<rparr> (rooms s)"
    and "fst (hr_created sid st (createRoom uuid sid pk s)) = st"
    and "map_of (sockets (snd (hr_created sid st (createRoom uuid sid pk s)))) sid =
           Some (k\<lparr>state := None, sock_roomId := Some uuid\<rparr>)"
    and "y \<noteq> sid \<Longrightarrow>
           map_of (sockets (snd (hr_created sid st (createRoom uuid sid pk s)))) y = map_of (sockets s) y"
  using assms by (simp_all add: hr_created_def createRoom_def Let_def prim_simps)

subsection \<open>What the handlers change\<close>

lemma joinRoom_missing_effect:
  assumes "map_of (sockets s) sid = Some k"
  shows "rooms (joinRoom_missing sid s) = rooms s"
    and "map_of (sockets (joinRoom_missing sid s)) y =
           (if y = sid then Some (k\<lparr>state := Some \<lparr>step = ''choice'', roomId = None\<rparr>\<rparr>) else map_of (sockets s) y)"
  using assms by (simp_all add: joinRoom_missing_def prim_simps)

lemma joinRoom_present_effect:
  assumes "map_of (sockets s) sid = Some k"
  shows "rooms (joinRoom_present sid r u s) =
           AList.map_entry r (\<lambda>rm. rm\<lparr>clients := AList.update sid u (clients rm)\<rparr>) (rooms s)"
    and "map_of (sockets (joinRoom_present sid r u s)) y =
           (if y = sid then Some (k\<lparr>state := Some \<lparr>step = ''chat'', roomId = Some r\<rparr>,
                                   joined := List.insert r (joined k)\<rparr>)
            else map_of (sockets s) y)"
  using assms by (simp_all add: joinRoom_present_def Let_def prim_simps)

lemma handleResponse_cases:
  assumes k: "map_of (sockets s) sid = Some k" and st: "state k = Some st"
  shows "(\<exists>st'. rooms (handleResponse uuid sid d s) = rooms s
            \<and> map_of (sockets (handleResponse uuid sid d s)) sid = Some (k\<lparr>state := Some st'\<rparr>)
            \<and> (step st \<in> set steps \<longrightarrow> step st' \<in> set steps)
            \<and> (step st = ''chat'' \<longrightarrow> st' = st))
       \<or> (\<exists>pk. step st \<noteq> ''chat''
            \<and> rooms (handleResponse uuid sid d s) = AList.update uuid \<lparr>passkey = pk, clients = []\<rparr> (rooms s)
            \<and> map_of (sockets (handleResponse uuid sid d s)) sid
                = Some (k\<lparr>state := Some st, sock_roomId := Some uuid\<rparr>))
       \<or> (\<exists>r rm. step st = ''username'' \<and> roomId st = Some r \<and> map_of (rooms s) r = Some rm \<and> d \<noteq> []
            \<and> rooms (handleResponse uuid sid d s)
                = AList.map_entry r (\<lambda>rm. rm\<lparr>clients := AList.update sid d (clients rm)\<rparr>) (rooms s)
            \<and> map_of (sockets (handleResponse uuid sid d s)) sid
                = Some (k\<lparr>state := Some (st\<lparr>step := ''chat''\<rparr>), joined := List.insert r (joined k)\<rparr>))"
proof -
  have ss: "socket_state sid s = Some st"
    using k st by (simp add: socket_state_def)
  note u = handleResponse_unfold [OF ss]
  consider (choice) "step st = ''choice''" | (host_type) "step st = ''host_type''"
    | (host_passkey) "step st = ''host_passkey''" | (connect_room) "step st = ''connect_room''"
    | (connect_passkey) "step st = ''connect_passkey''" | (username) "step st = ''username''"
    | (other) "step st \<notin> set [''choice'', ''host_type'', ''host_passkey'', ''connect_room'',
                          ''connect_passkey'', ''username'']"
    by auto
  then show ?thesis
  proof cases
    case choice
    then show ?thesis using k
      by (intro disjI1) (auto simp: u hr_branch_def hr_choice_def prim_simps steps_def)
  next
    case host_type
    then show ?thesis using k
      by (cases "d = ''1''") (auto simp: u hr_branch_def hr_host_type_def hr_created_effect [OF k] prim_simps steps_def)
  next
    case host_passkey
    then show ?thesis using k
      by (cases "d = []") (auto simp: u hr_branch_def hr_host_passkey_def hr_created_effect [OF k] prim_simps steps_def)
  next
    case connect_room
    then show ?thesis using k
      by (intro disjI1) (auto simp: u hr_branch_def hr_connect_room_def prim_simps steps_def split: option.split)
  next
    case connect_passkey
    then show ?thesis using k
      by (intro disjI1) (auto simp: u hr_branch_def hr_connect_passkey_def prim_simps steps_def)
  next
    case username
    show ?thesis
    proof (cases "d \<noteq> [] \<and> (\<exists>r rm. roomId st = Some r \<and> map_of (rooms s) r = Some rm)")
      case True
      then obtain r rm where r: "roomId st = Some r" "map_of (rooms s) r = Some rm" and d: "d \<noteq> []"
        by blast
      show ?thesis using username k r d
        by (intro disjI2) (simp add: u hr_branch_def hr_username_def joinRoom_def
            joinRoom_present_effect [OF k] prim_simps)
    next
      case False
      then show ?thesis using username k
        by (intro disjI1) (auto simp: u hr_branch_def hr_username_def joinRoom_def
            joinRoom_missing_effect [OF k] prim_simps steps_def split: option.splits)
    qed
  next
    case other
    then have b: "hr_branch uuid sid d st s = hr_invalid sid st s"
      by (simp add: hr_branch_def)
    show ?thesis using k
      by (intro disjI1) (auto simp: u b hr_invalid_def prim_simps)
  qed
qed


lemma joinRoom_other:
  "y \<noteq> sid \<Longrightarrow> map_of (sockets (joinRoom sid rid u s)) y = map_of (sockets s) y"
  by (simp add: joinRoom_def joinRoom_missing_def joinRoom_present_def Let_def prim_simps
      split: option.split)

lemma hr_created_other:
  "y \<noteq> sid \<Longrightarrow>
   map_of (sockets (snd (hr_created sid st (createRoom uuid sid pk s)))) y = map_of (sockets s) y"
  by (simp add: hr_created_def createRoom_def Let_def prim_simps)

lemma hr_branch_other:
  assumes "y \<noteq> sid"
  shows "map_of (sockets (snd (hr_branch uuid sid d st s))) y = map_of (sockets s) y"
proof -
  have "map_of (sockets (snd (hr_choice sid d st s))) y = map_of (sockets s) y"
    by (simp add: hr_choice_def prim_simps)
  moreover have "map_of (sockets (snd (hr_host_type uuid sid d st s))) y = map_of (sockets s) y"
    using assms by (simp add: hr_host_type_def hr_created_other prim_simps)
  moreover have "map_of (sockets (snd (hr_host_passkey uuid sid d st s))) y = map_of (sockets s) y"
    using assms by (simp add: hr_host_passkey_def hr_created_other prim_simps)
  moreover have "map_of (sockets (snd (hr_connect_room sid d st s))) y = map_of (sockets s) y"
    by (simp add: hr_connect_room_def prim_simps split: option.split)
  moreover have "map_of (sockets (snd (hr_connect_passkey sid d st s))) y = map_of (sockets s) y"
    by (simp add: hr_connect_passkey_def prim_simps)
  moreover have "map_of (sockets (snd (hr_username sid d st s))) y = map_of (sockets s) y"
    using assms by (simp add: hr_username_def joinRoom_other prim_simps)
  moreover have "map_of (sockets (snd (hr_invalid sid st s))) y = map_of (sockets s) y"
    using assms by (simp add: hr_invalid_def prim_simps)
  ultimately show ?thesis
    by (simp add: hr_branch_def)
qed

lemma handleResponse_other:
  "y \<noteq> sid \<Longrightarrow> map_of (sockets (handleResponse uuid sid d s)) y = map_of (sockets s) y"
  by (simp add: handleResponse_def Let_def hr_branch_other prim_simps)

lemma find_None_iff:
  "findRoomForSocket sid rs = None \<longleftrightarrow> (\<forall>p\<in>set rs. map_of (clients (snd p)) sid = None)"
  by (induction rs) auto

lemma find_SomeD:
  "findRoomForSocket sid rs = Some r \<Longrightarrow> \<exists>rm. (r, rm) \<in> set rs \<and> map_of (clients rm) sid \<noteq> None"
  by (induction rs) (auto split: if_splits)

lemma set_update_subset: "set (AList.update k v xs) \<subseteq> insert (k, v) (set xs)"
  by (induction xs) auto

lemma set_delete_eq: "set (AList.delete k xs) = {p \<in> set xs. fst p \<noteq> k}"
  by (auto simp: AList.delete_eq)

lemma map_fst_map_entry: "map fst (AList.map_entry k f xs) = map fst xs"
  by (induction xs) auto

lemma set_map_entry_distinct:
  "distinct (map fst xs) \<Longrightarrow>
   set (AList.map_entry k f xs) = {p \<in> set xs. fst p \<noteq> k} \<union> {(k, f v) |v. (k, v) \<in> set xs}"
  by (induction xs) (auto simp: rev_image_eqI)

lemma leave_notice_sockets: "sockets (snd (leave_notice sid s)) = sockets s"
  by (simp add: leave_notice_def prim_simps split: option.split)


lemma steps_ok_iff:
  "steps_ok s \<longleftrightarrow>
     (\<forall>sid k. map_of (sockets s) sid = Some k \<longrightarrow> (\<exists>st. state k = Some st \<and> step st \<in> set steps))"
proof
  assume a: "steps_ok s"
  show "\<forall>sid k. map_of (sockets s) sid = Some k \<longrightarrow> (\<exists>st. state k = Some st \<and> step st \<in> set steps)"
  proof (intro allI impI)
    fix sid k assume k: "map_of (sockets s) sid = Some k"
    then have "sid \<in> set (map fst (sockets s))"
      by (metis map_of_eq_None_iff option.distinct(1) set_map)
    with a have "case socket_state sid s of None \<Rightarrow> False | Some st \<Rightarrow> step st \<in> set steps"
      unfolding steps_ok_def by blast
    with k show "\<exists>st. state k = Some st \<and> step st \<in> set steps"
      by (simp add: socket_state_def split: option.splits)
  qed
next
  assume a: "\<forall>sid k. map_of (sockets s) sid = Some k \<longrightarrow> (\<exists>st. state k = Some st \<and> step st \<in> set steps)"
  show "steps_ok s"
    unfolding steps_ok_def
  proof
    fix sid assume "sid \<in> set (map fst (sockets s))"
    then obtain k where k: "map_of (sockets s) sid = Some k"
      by (metis map_of_eq_None_iff not_Some_eq set_map)
    with a obtain st where "state k = Some st" "step st \<in> set steps" by blast
    with k show "case socket_state sid s of None \<Rightarrow> False | Some st \<Rightarrow> step st \<in> set steps"
      by (simp add: socket_state_def)
  qed
qed

lemma on_disconnect_sockets: "sockets (on_disconnect sid s) = sockets s"
proof -
  have "sockets (snd (leave_notice sid s)) = sockets s"
    by (rule leave_notice_sockets)
  then show ?thesis
    by (cases "leave_notice sid s") (auto simp: on_disconnect_def split: option.splits)
qed

lemma socket_close_sockets:
  "map_of (sockets (socket_close sid s)) y =
     (if y = sid \<and> is_connected sid s
      then map_option (\<lambda>k. k\<lparr>joined := [], connected := False\<rparr>) (map_of (sockets s) sid)
      else map_of (sockets s) y)"
  by (simp add: socket_close_def on_disconnect_sockets map_of_map_entry split: option.split)

lemma is_connected_quit_prefix:
  "is_connected sid (set_state sid v (snd (leave_notice sid s))) = is_connected sid s"
  by (simp add: is_connected_def prim_simps leave_notice_sockets split: option.split)

lemma on_quit_sockets:
  assumes "is_connected sid s"
  shows "map_of (sockets (on_quit sid s)) y =
     (if y = sid
      then map_option (\<lambda>k. k\<lparr>state := Some \<lparr>step = ''choice'', roomId = None\<rparr>, joined := [],
                               connected := False\<rparr>) (map_of (sockets s) sid)
      else map_of (sockets s) y)"
  using assms
  by (simp add: on_quit_def socket_close_sockets is_connected_quit_prefix prim_simps
      leave_notice_sockets option.map_comp comp_def)

lemma connection_sockets:
  assumes "map_of (sockets s) sid = None"
  shows "map_of (sockets (on_connection sid (new_socket sid s))) y =
     (if y = sid
      then Some \<lparr>state = Some \<lparr>step = ''choice'', roomId = None\<rparr>, sock_roomId = None,
                 joined = [sid], connected = True\<rparr>
      else map_of (sockets s) y)"
  using assms
  by (auto simp: on_connection_def new_socket_def prim_simps map_add_def split: option.split)

lemma on_chat_message_frame:
  "sockets (on_chat_message sid d s) = sockets s" "rooms (on_chat_message sid d s) = rooms s"
  by (simp_all add: on_chat_message_def prim_simps split: option.split)


lemma steps_ok_handle:
  assumes "steps_ok s"
  shows "steps_ok (handle uuid e s)"
proof -
  note a = assms [unfolded steps_ok_iff, rule_format]
  show ?thesis
    unfolding steps_ok_iff
  proof (intro allI impI)
    fix y k' assume k': "map_of (sockets (handle uuid e s)) y = Some k'"
    show "\<exists>st. state k' = Some st \<and> step st \<in> set steps"
    proof (cases e)
      case (Connection sid)
      then show ?thesis using k' a
        by (auto simp: connection_sockets steps_def split: if_splits)
    next
      case (Response sid d)
      show ?thesis
      proof (cases "is_connected sid s")
        case True
        then obtain k where k: "map_of (sockets s) sid = Some k"
          by (auto simp: is_connected_def split: option.splits)
        with a obtain st where st: "state k = Some st" "step st \<in> set steps" by blast
        show ?thesis
        proof (cases "y = sid")
          case True
          have h: "handle uuid e s = handleResponse uuid sid (trim d) s"
            using Response \<open>is_connected sid s\<close> by (simp add: on_response_def)
          from handleResponse_cases [OF k st(1), of uuid "trim d"]
          consider st' where "map_of (sockets (handle uuid e s)) sid = Some (k\<lparr>state := Some st'\<rparr>)"
              "step st' \<in> set steps"
            | "map_of (sockets (handle uuid e s)) sid = Some (k\<lparr>state := Some st, sock_roomId := Some uuid\<rparr>)"
            | r where "map_of (sockets (handle uuid e s)) sid
                = Some (k\<lparr>state := Some (st\<lparr>step := ''chat''\<rparr>), joined := List.insert r (joined k)\<rparr>)"
            unfolding h using st(2) by blast
          then show ?thesis
          proof cases
            case 1
            with k' True show ?thesis by auto
          next
            case 2
            with k' True st show ?thesis by auto
          next
            case 3
            with k' True show ?thesis by (auto simp: steps_def)
          qed
        next
          case False
          with k' Response \<open>is_connected sid s\<close> a show ?thesis
            by (simp add: on_response_def handleResponse_other)
        qed
      next
        case False
        with k' Response a show ?thesis by simp
      qed
    next
      case (Chat_message sid d)
      then show ?thesis using k' a
        by (auto simp: on_chat_message_frame split: if_splits)
    next
      case (Quit sid)
      then show ?thesis using k' a
        by (auto simp: on_quit_sockets steps_def split: if_splits)
    next
      case (Disconnect sid)
      then show ?thesis using k' a
        by (auto simp: socket_close_sockets split: if_splits)
    qed
  qed
qed

lemma steps_ok_run: "steps_ok s \<Longrightarrow> steps_ok (run es s)"
  by (induction es arbitrary: s) (simp_all add: steps_ok_handle)

subsection \<open>The registry invariant\<close>

lemma member_ok_cong:
  "map_of (sockets s') x = map_of (sockets s) x \<Longrightarrow> member_ok s' r x = member_ok s r x"
  by (simp add: member_ok_def)

lemma rooms_wf_iff:
  "rooms_wf rs \<longleftrightarrow> distinct (map fst rs)
     \<and> (\<forall>r rm. (r, rm) \<in> set rs \<longrightarrow> r \<noteq> [] \<and> (\<forall>x u. (x, u) \<in> set (clients rm) \<longrightarrow> u \<noteq> []))"
  unfolding rooms_wf_def by (intro arg_cong2 [of _ _ _ _ "(\<and>)"] refl) force

lemma members_ok_iff:
  "members_ok s \<longleftrightarrow>
     (\<forall>r rm x u. (r, rm) \<in> set (rooms s) \<longrightarrow> (x, u) \<in> set (clients rm) \<longrightarrow> member_ok s r x)"
  unfolding members_ok_def by force

lemma rooms_wfD:
  assumes "rooms_wf rs" and "(r, rm) \<in> set rs"
  shows "r \<noteq> []" and "map_of rs r = Some rm" and "(x, u) \<in> set (clients rm) \<Longrightarrow> u \<noteq> []"
  using assms by (auto simp: rooms_wf_iff)

lemma member_okD:
  assumes "member_ok s r x"
  obtains k st where "map_of (sockets s) x = Some k" "connected k" "r \<in> set (joined k)"
    "state k = Some st" "step st = ''chat''" "roomId st = Some r"
  using assms by (auto simp: member_ok_def split: option.splits)

lemma members_okD:
  "members_ok s \<Longrightarrow> (r, rm) \<in> set (rooms s) \<Longrightarrow> (x, u) \<in> set (clients rm) \<Longrightarrow> member_ok s r x"
  by (auto simp: members_ok_iff)

lemma in_clientsI: "map_of cl x = Some u \<Longrightarrow> (x, u) \<in> set cl"
  by (rule map_of_SomeD)

text \<open>A socket is a member of one room at most.\<close>

lemma member_unique:
  assumes "members_ok s" and "(r, rm) \<in> set (rooms s)" and "(x, u) \<in> set (clients rm)"
    and "(r', rm') \<in> set (rooms s)" and "(x, u') \<in> set (clients rm')"
  shows "r' = r"
proof -
  from members_okD [OF assms(1,2,3)] obtain k st where
    "map_of (sockets s) x = Some k" "state k = Some st" "roomId st = Some r"
    by (rule member_okD)
  moreover from members_okD [OF assms(1,4,5)] obtain k' st' where
    "map_of (sockets s) x = Some k'" "state k' = Some st'" "roomId st' = Some r'"
    by (rule member_okD)
  ultimately show ?thesis by simp
qed

lemma rooms_wf_map_entry_delete:
  assumes "rooms_wf rs"
  shows "rooms_wf (AList.map_entry r (\<lambda>rm. rm\<lparr>clients := AList.delete x (clients rm)\<rparr>) rs)"
proof -
  have d: "distinct (map fst rs)" using assms by (simp add: rooms_wf_def)
  show ?thesis
    using assms
    by (auto simp: rooms_wf_iff map_fst_map_entry set_map_entry_distinct [OF d] set_delete_eq) blast+
qed

lemma rooms_wf_delete: "rooms_wf rs \<Longrightarrow> rooms_wf (AList.delete r rs)"
  by (auto simp: rooms_wf_iff distinct_delete set_delete_eq)

lemma rooms_wf_update:
  assumes "rooms_wf rs" and "uuid \<noteq> []"
  shows "rooms_wf (AList.update uuid \<lparr>passkey = pk, clients = []\<rparr> rs)"
proof -
  have "\<And>p. p \<in> set (AList.update uuid \<lparr>passkey = pk, clients = []\<rparr> rs) \<Longrightarrow>
          p = (uuid, \<lparr>passkey = pk, clients = []\<rparr>) \<or> p \<in> set rs"
    using set_update_subset [of uuid "\<lparr>passkey = pk, clients = []\<rparr>" rs] by auto
  then show ?thesis
    using assms by (fastforce simp: rooms_wf_iff distinct_update)
qed

lemma rooms_wf_map_entry_update:
  assumes "rooms_wf rs" and "u \<noteq> []"
  shows "rooms_wf (AList.map_entry r (\<lambda>rm. rm\<lparr>clients := AList.update x u (clients rm)\<rparr>) rs)"
proof -
  have d: "distinct (map fst rs)" using assms by (simp add: rooms_wf_def)
  have "\<And>c cl. c \<in> set (AList.update x u cl) \<Longrightarrow> c = (x, u) \<or> c \<in> set cl"
    using set_update_subset by fastforce
  then show ?thesis
    using assms
    by (fastforce simp: rooms_wf_iff map_fst_map_entry set_map_entry_distinct [OF d])
qed


lemma leave_notice_None:
  "findRoomForSocket sid (rooms s) = None \<Longrightarrow> leave_notice sid s = (None, s)"
  by (simp add: leave_notice_def)

lemma on_disconnect_None:
  "findRoomForSocket sid (rooms s) = None \<Longrightarrow> on_disconnect sid s = s"
  by (simp add: on_disconnect_def leave_notice_None)

lemma leave_notice_cases:
  assumes "rooms_wf (rooms s)"
  shows "(findRoomForSocket sid (rooms s) = None \<and> leave_notice sid s = (None, s))
       \<or> (\<exists>r rm u. (r, rm) \<in> set (rooms s) \<and> map_of (clients rm) sid = Some u
            \<and> leave_notice sid s =
                (Some r, io_to_emit r ''message'' (''*** '' @ u @ '' left the chat ***'')
                   (s\<lparr>rooms := AList.map_entry r
                         (\<lambda>rm. rm\<lparr>clients := AList.delete sid (clients rm)\<rparr>) (rooms s)\<rparr>)))"
proof (cases "findRoomForSocket sid (rooms s)")
  case None
  then show ?thesis by (simp add: leave_notice_None)
next
  case (Some r)
  from find_SomeD [OF Some] obtain rm u where
    rm: "(r, rm) \<in> set (rooms s)" and u: "map_of (clients rm) sid = Some u"
    by auto
  from rooms_wfD [OF assms rm] in_clientsI [OF u]
  have "r \<noteq> []" "map_of (rooms s) r = Some rm" "u \<noteq> []" by auto
  with Some u have "leave_notice sid s =
      (Some r, io_to_emit r ''message'' (''*** '' @ u @ '' left the chat ***'')
         (s\<lparr>rooms := AList.map_entry r (\<lambda>rm. rm\<lparr>clients := AList.delete sid (clients rm)\<rparr>) (rooms s)\<rparr>))"
    by (simp add: leave_notice_def)
  with rm u show ?thesis by blast
qed

lemma left_every_room:
  assumes wf: "rooms_wf rs"
    and sole: "\<forall>r' rm'. (r', rm') \<in> set rs \<longrightarrow> map_of (clients rm') sid \<noteq> None \<longrightarrow> r' = r"
  shows "findRoomForSocket sid
           (AList.map_entry r (\<lambda>rm. rm\<lparr>clients := AList.delete sid (clients rm)\<rparr>) rs) = None"
proof -
  have d: "distinct (map fst rs)" using wf by (simp add: rooms_wf_def)
  show ?thesis
    unfolding find_None_iff set_map_entry_distinct [OF d]
    using sole by (auto simp: delete_conv') (metis not_Some_eq)
qed

lemma members_sole:
  assumes "members_ok s" and "(r, rm) \<in> set (rooms s)" and "map_of (clients rm) sid = Some u"
    and "(r', rm') \<in> set (rooms s)" and "map_of (clients rm') sid \<noteq> None"
  shows "r' = r"
proof -
  from assms(5) obtain u' where "(sid, u') \<in> set (clients rm')"
    by (auto dest: map_of_SomeD)
  from member_unique [OF assms(1,2) in_clientsI [OF assms(3)] assms(4) this] show ?thesis .
qed


lemma leave_notice_member:
  assumes wf: "rooms_wf (rooms s)" and rm: "(r, rm) \<in> set (rooms s)"
    and u: "map_of (clients rm) sid = Some u"
    and sole: "\<forall>r' rm'. (r', rm') \<in> set (rooms s) \<longrightarrow> map_of (clients rm') sid \<noteq> None \<longrightarrow> r' = r"
  shows "leave_notice sid s =
           (Some r, io_to_emit r ''message'' (''*** '' @ u @ '' left the chat ***'')
              (s\<lparr>rooms := AList.map_entry r
                    (\<lambda>rm. rm\<lparr>clients := AList.delete sid (clients rm)\<rparr>) (rooms s)\<rparr>))"
proof -
  from leave_notice_cases [OF wf, of sid]
  show ?thesis
  proof
    assume "findRoomForSocket sid (rooms s) = None \<and> leave_notice sid s = (None, s)"
    with rm u show ?thesis by (auto simp: find_None_iff)
  next
    assume "\<exists>r0 rm0 u0. (r0, rm0) \<in> set (rooms s) \<and> map_of (clients rm0) sid = Some u0
            \<and> leave_notice sid s =
                (Some r0, io_to_emit r0 ''message'' (''*** '' @ u0 @ '' left the chat ***'')
                   (s\<lparr>rooms := AList.map_entry r0
                         (\<lambda>rm. rm\<lparr>clients := AList.delete sid (clients rm)\<rparr>) (rooms s)\<rparr>))"
    then obtain r0 rm0 u0 where m: "(r0, rm0) \<in> set (rooms s)" "map_of (clients rm0) sid = Some u0"
      and l: "leave_notice sid s =
                (Some r0, io_to_emit r0 ''message'' (''*** '' @ u0 @ '' left the chat ***'')
                   (s\<lparr>rooms := AList.map_entry r0
                         (\<lambda>rm. rm\<lparr>clients := AList.delete sid (clients rm)\<rparr>) (rooms s)\<rparr>))"
      by blast
    from sole m have "r0 = r" by blast
    moreover from rooms_wfD(2) [OF wf m(1)] rooms_wfD(2) [OF wf rm] \<open>r0 = r\<close> have "rm0 = rm" by simp
    ultimately show ?thesis using l m(2) u by simp
  qed
qed

lemma delete_map_entry: "AList.delete k (AList.map_entry k f xs) = AList.delete k xs"
  by (induction xs) auto

lemma on_disconnect_member:
  assumes wf: "rooms_wf (rooms s)" and rm: "(r, rm) \<in> set (rooms s)"
    and u: "map_of (clients rm) sid = Some u"
    and sole: "\<forall>r' rm'. (r', rm') \<in> set (rooms s) \<longrightarrow> map_of (clients rm') sid \<noteq> None \<longrightarrow> r' = r"
  shows "on_disconnect sid s =
           (io_to_emit r ''message'' (''*** '' @ u @ '' left the chat ***'') s)
             \<lparr>rooms := (if AList.delete sid (clients rm) = [] then AList.delete r (rooms s)
                         else AList.map_entry r
                                (\<lambda>rm. rm\<lparr>clients := AList.delete sid (clients rm)\<rparr>) (rooms s))\<rparr>"
proof -
  have m: "map_of (rooms s) r = Some rm" by (rule rooms_wfD(2) [OF wf rm])
  show ?thesis
    by (simp add: on_disconnect_def leave_notice_member [OF wf rm u sole] io_to_emit_def
        map_of_map_entry m delete_map_entry adapter_room_def)
qed

lemma find_cases:
  assumes "rooms_wf (rooms s)" and "members_ok s"
  obtains (none) "findRoomForSocket sid (rooms s) = None"
    | (member) r rm u where "(r, rm) \<in> set (rooms s)" "map_of (clients rm) sid = Some u"
        "\<forall>r' rm'. (r', rm') \<in> set (rooms s) \<longrightarrow> map_of (clients rm') sid \<noteq> None \<longrightarrow> r' = r"
proof (cases "findRoomForSocket sid (rooms s)")
  case None
  then show ?thesis by (rule none)
next
  case (Some r)
  from find_SomeD [OF Some] obtain rm u where
    rm: "(r, rm) \<in> set (rooms s)" and u: "map_of (clients rm) sid = Some u"
    by auto
  have "\<forall>r' rm'. (r', rm') \<in> set (rooms s) \<longrightarrow> map_of (clients rm') sid \<noteq> None \<longrightarrow> r' = r"
    using members_sole [OF assms(2) rm u] by blast
  with rm u show ?thesis by (rule member)
qed


lemma registry_ok_grow:
  assumes ok: "registry_ok s" and wf: "rooms_wf (rooms s')"
    and m: "\<And>r rm x u. (r, rm) \<in> set (rooms s') \<Longrightarrow> (x, u) \<in> set (clients rm) \<Longrightarrow>
              member_ok s' r x
            \<or> ((\<exists>rm0. (r, rm0) \<in> set (rooms s) \<and> (x, u) \<in> set (clients rm0))
                \<and> map_of (sockets s') x = map_of (sockets s) x)"
  shows "registry_ok s'"
proof -
  have "member_ok s' r x" if "(r, rm) \<in> set (rooms s')" "(x, u) \<in> set (clients rm)" for r rm x u
  proof -
    from m [OF that] show ?thesis
    proof
      assume "(\<exists>rm0. (r, rm0) \<in> set (rooms s) \<and> (x, u) \<in> set (clients rm0))
                \<and> map_of (sockets s') x = map_of (sockets s) x"
      then obtain rm0 where "(r, rm0) \<in> set (rooms s)" "(x, u) \<in> set (clients rm0)"
        and e: "map_of (sockets s') x = map_of (sockets s) x" by blast
      with ok have "member_ok s r x"
        by (auto simp: registry_ok_def dest: members_okD)
      then show ?thesis by (simp add: member_ok_cong [OF e])
    qed
  qed
  then have "members_ok s'" unfolding members_ok_iff by blast
  with wf show ?thesis by (simp add: registry_ok_def)
qed

lemma registry_ok_absent:
  assumes ok: "registry_ok s" and none: "findRoomForSocket sid (rooms s) = None"
    and r: "rooms s' = rooms s"
    and socks: "\<And>x. x \<noteq> sid \<Longrightarrow> map_of (sockets s') x = map_of (sockets s) x"
  shows "registry_ok s'"
proof (rule registry_ok_grow [OF ok])
  show "rooms_wf (rooms s')" using ok r by (simp add: registry_ok_def)
next
  fix r' rm x u assume a: "(r', rm) \<in> set (rooms s')" "(x, u) \<in> set (clients rm)"
  with none r have "map_of (clients rm) sid = None" by (auto simp: find_None_iff)
  with a(2) have "x \<noteq> sid" by (auto dest: weak_map_of_SomeI)
  with a r socks show "member_ok s' r' x
            \<or> ((\<exists>rm0. (r', rm0) \<in> set (rooms s) \<and> (x, u) \<in> set (clients rm0))
                \<and> map_of (sockets s') x = map_of (sockets s) x)"
    by auto
qed

lemma registry_ok_departed:
  assumes ok: "registry_ok s" and rm: "(r, rm) \<in> set (rooms s)"
    and u: "map_of (clients rm) sid = Some u"
    and r: "rooms s' = AList.map_entry r (\<lambda>rm. rm\<lparr>clients := AList.delete sid (clients rm)\<rparr>) (rooms s)
          \<or> rooms s' = AList.delete r (rooms s)"
    and socks: "\<And>x. x \<noteq> sid \<Longrightarrow> map_of (sockets s') x = map_of (sockets s) x"
  shows "registry_ok s'"
proof (rule registry_ok_grow [OF ok])
  have wf: "rooms_wf (rooms s)" and mo: "members_ok s" using ok by (simp_all add: registry_ok_def)
  have d: "distinct (map fst (rooms s))" using wf by (simp add: rooms_wf_def)
  show "rooms_wf (rooms s')"
    using r wf by (auto simp: rooms_wf_map_entry_delete rooms_wf_delete)
  fix r' rm' x u' assume a: "(r', rm') \<in> set (rooms s')" "(x, u') \<in> set (clients rm')"
  have old: "x \<noteq> sid" if "(r', rm') \<in> set (rooms s)" "r' \<noteq> r"
  proof
    assume "x = sid"
    with a(2) have "map_of (clients rm') sid \<noteq> None" by (auto dest: weak_map_of_SomeI)
    from members_sole [OF mo rm u that(1) this] that(2) show False by simp
  qed
  have "(r', rm') \<in> set (rooms s) \<and> r' \<noteq> r
      \<or> r' = r \<and> rm' = rm\<lparr>clients := AList.delete sid (clients rm)\<rparr>"
    using r
  proof
    assume e: "rooms s' = AList.map_entry r (\<lambda>rm. rm\<lparr>clients := AList.delete sid (clients rm)\<rparr>) (rooms s)"
    from a(1) have "(r', rm') \<in> set (rooms s) \<and> r' \<noteq> r
        \<or> (\<exists>v. r' = r \<and> rm' = v\<lparr>clients := AList.delete sid (clients v)\<rparr> \<and> (r, v) \<in> set (rooms s))"
      unfolding e set_map_entry_distinct [OF d] by auto
    then show ?thesis
    proof
      assume "(r', rm') \<in> set (rooms s) \<and> r' \<noteq> r" then show ?thesis by blast
    next
      assume "\<exists>v. r' = r \<and> rm' = v\<lparr>clients := AList.delete sid (clients v)\<rparr> \<and> (r, v) \<in> set (rooms s)"
      then obtain v where v: "r' = r" "rm' = v\<lparr>clients := AList.delete sid (clients v)\<rparr>"
        "(r, v) \<in> set (rooms s)" by blast
      from rooms_wfD(2) [OF wf v(3)] rooms_wfD(2) [OF wf rm] have "v = rm" by simp
      with v show ?thesis by blast
    qed
  next
    assume e: "rooms s' = AList.delete r (rooms s)"
    from a(1) have "(r', rm') \<in> set (rooms s)" "r' \<noteq> r"
      unfolding e set_delete_eq by auto
    then show ?thesis by blast
  qed
  then consider "(r', rm') \<in> set (rooms s)" "r' \<noteq> r"
    | "r' = r" "rm' = rm\<lparr>clients := AList.delete sid (clients rm)\<rparr>"
    by blast
  then show "member_ok s' r' x
            \<or> ((\<exists>rm0. (r', rm0) \<in> set (rooms s) \<and> (x, u') \<in> set (clients rm0))
                \<and> map_of (sockets s') x = map_of (sockets s) x)"
  proof cases
    case 1
    with old a socks show ?thesis by blast
  next
    case 2
    with a(2) have "x \<noteq> sid" "(x, u') \<in> set (clients rm)"
      by (auto simp: set_delete_eq)
    with 2 rm socks show ?thesis by blast
  qed
qed

lemma socket_close_absent:
  assumes "is_connected sid s" and "findRoomForSocket sid (rooms s) = None"
  shows "socket_close sid s =
           s\<lparr>sockets := AList.map_entry sid (\<lambda>k. k\<lparr>joined := [], connected := False\<rparr>) (sockets s)\<rparr>"
  using assms by (simp add: socket_close_def on_disconnect_None)

lemma socket_close_member:
  assumes c: "is_connected sid s" and wf: "rooms_wf (rooms s)" and rm: "(r, rm) \<in> set (rooms s)"
    and u: "map_of (clients rm) sid = Some u"
    and sole: "\<forall>r' rm'. (r', rm') \<in> set (rooms s) \<longrightarrow> map_of (clients rm') sid \<noteq> None \<longrightarrow> r' = r"
  shows "socket_close sid s =
           (io_to_emit r ''message'' (''*** '' @ u @ '' left the chat ***'')
              (s\<lparr>sockets := AList.map_entry sid (\<lambda>k. k\<lparr>joined := [], connected := False\<rparr>) (sockets s)\<rparr>))
             \<lparr>rooms := (if AList.delete sid (clients rm) = [] then AList.delete r (rooms s)
                         else AList.map_entry r
                                (\<lambda>rm. rm\<lparr>clients := AList.delete sid (clients rm)\<rparr>) (rooms s))\<rparr>"
proof -
  let ?s2 = "s\<lparr>sockets := AList.map_entry sid (\<lambda>k. k\<lparr>joined := [], connected := False\<rparr>) (sockets s)\<rparr>"
  have r2: "rooms ?s2 = rooms s" by simp
  have wf2: "rooms_wf (rooms ?s2)" unfolding r2 by (rule wf)
  have rm2: "(r, rm) \<in> set (rooms ?s2)" unfolding r2 by (rule rm)
  have sole2: "\<forall>r' rm'. (r', rm') \<in> set (rooms ?s2) \<longrightarrow> map_of (clients rm') sid \<noteq> None \<longrightarrow> r' = r"
    unfolding r2 by (rule sole)
  have e1: "socket_close sid s = on_disconnect sid ?s2"
    using c by (simp add: socket_close_def)
  note e2 = on_disconnect_member [OF wf2 rm2 u sole2]
  show ?thesis
    by (rule trans [OF e1]) (rule trans [OF e2], simp cong: if_cong)
qed

lemma on_quit_absent:
  assumes "is_connected sid s" and "findRoomForSocket sid (rooms s) = None"
  shows "on_quit sid s =
           s\<lparr>sockets := AList.map_entry sid (\<lambda>k. k\<lparr>joined := [], connected := False\<rparr>)
                (sockets (set_state sid (Some \<lparr>step = ''choice'', roomId = None\<rparr>) s))\<rparr>"
proof -
  let ?s2 = "set_state sid (Some \<lparr>step = ''choice'', roomId = None\<rparr>) s"
  have "is_connected sid ?s2"
    using assms(1) is_connected_quit_prefix [of sid _ s] by (simp add: leave_notice_None [OF assms(2)])
  moreover have "findRoomForSocket sid (rooms ?s2) = None"
    using assms(2) by (simp add: prim_simps)
  ultimately have "socket_close sid ?s2 =
      ?s2\<lparr>sockets := AList.map_entry sid (\<lambda>k. k\<lparr>joined := [], connected := False\<rparr>) (sockets ?s2)\<rparr>"
    by (rule socket_close_absent)
  then show ?thesis
    by (simp add: on_quit_def leave_notice_None [OF assms(2)] set_state_def)
qed

lemma on_quit_member:
  assumes c: "is_connected sid s" and wf: "rooms_wf (rooms s)" and rm: "(r, rm) \<in> set (rooms s)"
    and u: "map_of (clients rm) sid = Some u"
    and sole: "\<forall>r' rm'. (r', rm') \<in> set (rooms s) \<longrightarrow> map_of (clients rm') sid \<noteq> None \<longrightarrow> r' = r"
  shows "on_quit sid s =
           s\<lparr>rooms := AList.map_entry r (\<lambda>rm. rm\<lparr>clients := AList.delete sid (clients rm)\<rparr>) (rooms s),
             sockets := AList.map_entry sid (\<lambda>k. k\<lparr>joined := [], connected := False\<rparr>)
                (sockets (set_state sid (Some \<lparr>step = ''choice'', roomId = None\<rparr>) s)),
             sent := sent s @ [\<lparr>dest = To_room r, event = ''message'',
                                payload = ''*** '' @ u @ '' left the chat ***'',
                                receivers = adapter_room r s\<rparr>]\<rparr>"
proof -
  let ?R = "AList.map_entry r (\<lambda>rm. rm\<lparr>clients := AList.delete sid (clients rm)\<rparr>) (rooms s)"
  let ?s1 = "io_to_emit r ''message'' (''*** '' @ u @ '' left the chat ***'') (s\<lparr>rooms := ?R\<rparr>)"
  let ?s2 = "set_state sid (Some \<lparr>step = ''choice'', roomId = None\<rparr>) ?s1"
  have l: "leave_notice sid s = (Some r, ?s1)"
    by (rule leave_notice_member [OF wf rm u sole])
  have "is_connected sid ?s2"
    using c is_connected_quit_prefix [of sid _ s] by (simp add: l)
  moreover have "findRoomForSocket sid (rooms ?s2) = None"
    using left_every_room [OF wf sole] by (simp add: prim_simps)
  ultimately have "socket_close sid ?s2 =
      ?s2\<lparr>sockets := AList.map_entry sid (\<lambda>k. k\<lparr>joined := [], connected := False\<rparr>) (sockets ?s2)\<rparr>"
    by (rule socket_close_absent)
  then show ?thesis
    by (simp add: on_quit_def l set_state_def io_to_emit_def adapter_room_def)
qed


lemma member_ok_same:
  assumes "map_of (sockets s) x = Some k" and "map_of (sockets s') x = Some k'"
    and "connected k' = connected k" and "joined k' = joined k" and "state k' = state k"
  shows "member_ok s' r x = member_ok s r x"
  using assms by (simp add: member_ok_def)

lemma registry_okD:
  assumes "registry_ok s"
  shows "rooms_wf (rooms s)" and "members_ok s"
    and "(r, rm) \<in> set (rooms s) \<Longrightarrow> (x, u) \<in> set (clients rm) \<Longrightarrow> member_ok s r x"
  using assms by (auto simp: registry_ok_def dest: members_okD)

lemma registry_ok_cong:
  "rooms s' = rooms s \<Longrightarrow> sockets s' = sockets s \<Longrightarrow> registry_ok s' = registry_ok s"
  by (simp add: registry_ok_def members_ok_def member_ok_def)

lemma connection_rooms: "rooms (on_connection y (new_socket y s)) = rooms s"
  by (simp add: on_connection_def new_socket_def prim_simps)

lemma registry_ok_connection:
  assumes ok: "registry_ok s"
  shows "registry_ok (handle uuid (Connection y) s)"
proof (cases "map_of (sockets s) y")
  case (Some k)
  with ok show ?thesis by simp
next
  case None
  have "findRoomForSocket y (rooms s) = None"
    unfolding find_None_iff
  proof
    fix p assume p: "p \<in> set (rooms s)"
    show "map_of (clients (snd p)) y = None"
    proof (rule ccontr)
      assume "map_of (clients (snd p)) y \<noteq> None"
      then obtain u where "(y, u) \<in> set (clients (snd p))" by (auto dest: map_of_SomeD)
      with p registry_okD(3) [OF ok, of "fst p" "snd p" y u] have "member_ok s (fst p) y" by simp
      with None show False by (simp add: member_ok_def)
    qed
  qed
  then have "registry_ok (on_connection y (new_socket y s))"
    by (rule registry_ok_absent [OF ok]) (simp_all add: connection_rooms connection_sockets [OF None])
  with None show ?thesis by simp
qed

lemma registry_ok_quit:
  assumes ok: "registry_ok s"
  shows "registry_ok (handle uuid (Quit sid) s)"
proof (cases "is_connected sid s")
  case False
  with ok show ?thesis by simp
next
  case True
  have socks: "\<And>x. x \<noteq> sid \<Longrightarrow> map_of (sockets (on_quit sid s)) x = map_of (sockets s) x"
    by (simp add: on_quit_sockets [OF True])
  from registry_okD(1,2) [OF ok] have "registry_ok (on_quit sid s)"
  proof (cases rule: find_cases [where sid = sid])
    case none
    show ?thesis
      by (rule registry_ok_absent [OF ok none _ socks]) (simp add: on_quit_absent [OF True none])
  next
    case (member r rm u)
    show ?thesis
      by (rule registry_ok_departed [OF ok member(1,2) _ socks])
        (simp add: on_quit_member [OF True registry_okD(1) [OF ok] member])
  qed
  with True show ?thesis by simp
qed

lemma registry_ok_disconnect:
  assumes ok: "registry_ok s"
  shows "registry_ok (handle uuid (Disconnect sid) s)"
proof (cases "is_connected sid s")
  case False
  with ok show ?thesis by (simp add: socket_close_def)
next
  case True
  have socks: "\<And>x. x \<noteq> sid \<Longrightarrow> map_of (sockets (socket_close sid s)) x = map_of (sockets s) x"
    by (simp add: socket_close_sockets)
  from registry_okD(1,2) [OF ok] have "registry_ok (socket_close sid s)"
  proof (cases rule: find_cases [where sid = sid])
    case none
    show ?thesis
      by (rule registry_ok_absent [OF ok none _ socks]) (simp add: socket_close_absent [OF True none])
  next
    case (member r rm u)
    show ?thesis
      by (rule registry_ok_departed [OF ok member(1,2) _ socks])
        (simp add: socket_close_member [OF True registry_okD(1) [OF ok] member] io_to_emit_def)
  qed
  then show ?thesis by simp
qed

lemma handleResponse_elim [consumes 2, case_names A B C]:
  assumes "map_of (sockets s) sid = Some k" and "state k = Some st"
  obtains (A) st' where "rooms (handleResponse uuid sid d s) = rooms s"
      "map_of (sockets (handleResponse uuid sid d s)) sid = Some (k\<lparr>state := Some st'\<rparr>)"
      "step st \<in> set steps \<longrightarrow> step st' \<in> set steps" "step st = ''chat'' \<longrightarrow> st' = st"
    | (B) pk where "step st \<noteq> ''chat''"
      "rooms (handleResponse uuid sid d s) = AList.update uuid \<lparr>passkey = pk, clients = []\<rparr> (rooms s)"
      "map_of (sockets (handleResponse uuid sid d s)) sid
         = Some (k\<lparr>state := Some st, sock_roomId := Some uuid\<rparr>)"
    | (C) r rm where "step st = ''username''" "roomId st = Some r" "map_of (rooms s) r = Some rm"
      "d \<noteq> []"
      "rooms (handleResponse uuid sid d s)
         = AList.map_entry r (\<lambda>rm. rm\<lparr>clients := AList.update sid d (clients rm)\<rparr>) (rooms s)"
      "map_of (sockets (handleResponse uuid sid d s)) sid
         = Some (k\<lparr>state := Some (st\<lparr>step := ''chat''\<rparr>), joined := List.insert r (joined k)\<rparr>)"
  using handleResponse_cases [OF assms, of uuid d]
  by (elim disjE exE conjE) blast+


lemma not_member_outside_chat:
  assumes ok: "registry_ok s" and k: "map_of (sockets s) sid = Some k" and st: "state k = Some st"
    and nc: "step st \<noteq> ''chat''" and rm: "(r, rm) \<in> set (rooms s)" and x: "(x, u) \<in> set (clients rm)"
  shows "x \<noteq> sid"
proof
  assume "x = sid"
  with registry_okD(3) [OF ok rm x] k st nc show False by (simp add: member_ok_def)
qed

lemma registry_ok_same_rooms:
  assumes ok: "registry_ok s" and k: "map_of (sockets s) sid = Some k" and st: "state k = Some st"
    and other: "\<forall>x. x \<noteq> sid \<longrightarrow> map_of (sockets s') x = map_of (sockets s) x"
    and r: "rooms s' = rooms s" and k': "map_of (sockets s') sid = Some (k\<lparr>state := Some st'\<rparr>)"
    and keep: "step st = ''chat'' \<longrightarrow> st' = st"
  shows "registry_ok s'"
proof (rule registry_ok_grow [OF ok])
  show "rooms_wf (rooms s')" using registry_okD(1) [OF ok] r by simp
  fix r rm x u assume a: "(r, rm) \<in> set (rooms s')" "(x, u) \<in> set (clients rm)"
  from a(1) r have "(r, rm) \<in> set (rooms s)" by simp
  from registry_okD(3) [OF ok this a(2)] have m: "member_ok s r x" .
  have "member_ok s' r x"
  proof (cases "x = sid")
    case True
    with m k st have "step st = ''chat''" by (simp add: member_ok_def)
    with keep have "st' = st" by simp
    with st have "state (k\<lparr>state := Some st'\<rparr>) = state k" by simp
    from member_ok_same [OF k k' _ _ this] m True show ?thesis by simp
  next
    case False
    with other have "map_of (sockets s') x = map_of (sockets s) x" by simp
    from member_ok_cong [OF this] m show ?thesis by simp
  qed
  then show "member_ok s' r x
        \<or> ((\<exists>rm0. (r, rm0) \<in> set (rooms s) \<and> (x, u) \<in> set (clients rm0))
            \<and> map_of (sockets s') x = map_of (sockets s) x)" ..
qed


lemma registry_ok_created:
  assumes ok: "registry_ok s" and k: "map_of (sockets s) sid = Some k" and st: "state k = Some st"
    and other: "\<forall>x. x \<noteq> sid \<longrightarrow> map_of (sockets s') x = map_of (sockets s) x"
    and nc: "step st \<noteq> ''chat''" and uuid: "uuid \<noteq> []"
    and r: "rooms s' = AList.update uuid \<lparr>passkey = pk, clients = []\<rparr> (rooms s)"
  shows "registry_ok s'"
proof (rule registry_ok_grow [OF ok])
  show "rooms_wf (rooms s')" unfolding r by (rule rooms_wf_update [OF registry_okD(1) [OF ok] uuid])
  fix r' rm x u assume a: "(r', rm) \<in> set (rooms s')" "(x, u) \<in> set (clients rm)"
  from a(1) have "(r', rm) \<in> insert (uuid, \<lparr>passkey = pk, clients = []\<rparr>) (set (rooms s))"
    unfolding r by (rule subsetD [OF set_update_subset])
  with a(2) have in_s: "(r', rm) \<in> set (rooms s)" by auto
  from not_member_outside_chat [OF ok k st nc in_s a(2)] have "x \<noteq> sid" .
  with other have "map_of (sockets s') x = map_of (sockets s) x" by simp
  with in_s a(2)
  show "member_ok s' r' x
        \<or> ((\<exists>rm0. (r', rm0) \<in> set (rooms s) \<and> (x, u) \<in> set (clients rm0))
            \<and> map_of (sockets s') x = map_of (sockets s) x)"
    by blast
qed

lemma registry_ok_joined:
  assumes ok: "registry_ok s" and k: "map_of (sockets s) sid = Some k" and st: "state k = Some st"
    and ck: "connected k"
    and other: "\<forall>x. x \<noteq> sid \<longrightarrow> map_of (sockets s') x = map_of (sockets s) x"
    and nc: "step st \<noteq> ''chat''" and rid: "roomId st = Some r" and d: "d \<noteq> []"
    and r: "rooms s' = AList.map_entry r (\<lambda>rm. rm\<lparr>clients := AList.update sid d (clients rm)\<rparr>) (rooms s)"
    and k': "map_of (sockets s') sid
         = Some (k\<lparr>state := Some (st\<lparr>step := ''chat''\<rparr>), joined := List.insert r (joined k)\<rparr>)"
  shows "registry_ok s'"
proof (rule registry_ok_grow [OF ok])
  have wf: "rooms_wf (rooms s)" by (rule registry_okD(1) [OF ok])
  have dist: "distinct (map fst (rooms s))" using wf by (simp add: rooms_wf_def)
  show "rooms_wf (rooms s')" unfolding r by (rule rooms_wf_map_entry_update [OF wf d])
  fix r' rm' x u assume a: "(r', rm') \<in> set (rooms s')" "(x, u) \<in> set (clients rm')"
  from a(1) have "(r', rm') \<in> set (rooms s)
      \<or> (\<exists>v. r' = r \<and> rm' = v\<lparr>clients := AList.update sid d (clients v)\<rparr> \<and> (r, v) \<in> set (rooms s))"
    unfolding r set_map_entry_distinct [OF dist] by auto
  then show "member_ok s' r' x
        \<or> ((\<exists>rm0. (r', rm0) \<in> set (rooms s) \<and> (x, u) \<in> set (clients rm0))
            \<and> map_of (sockets s') x = map_of (sockets s) x)"
  proof
    assume in_s: "(r', rm') \<in> set (rooms s)"
    from not_member_outside_chat [OF ok k st nc in_s a(2)] have "x \<noteq> sid" .
    with other have "map_of (sockets s') x = map_of (sockets s) x" by simp
    with in_s a(2) show ?thesis by blast
  next
    assume "\<exists>v. r' = r \<and> rm' = v\<lparr>clients := AList.update sid d (clients v)\<rparr> \<and> (r, v) \<in> set (rooms s)"
    then obtain v where v: "r' = r" "rm' = v\<lparr>clients := AList.update sid d (clients v)\<rparr>"
      "(r, v) \<in> set (rooms s)" by blast
    from a(2) v(2) have "(x, u) \<in> set (AList.update sid d (clients v))" by simp
    then have "(x, u) \<in> insert (sid, d) (set (clients v))"
      by (rule subsetD [OF set_update_subset])
    then have "(x, u) = (sid, d) \<or> (x, u) \<in> set (clients v)" by simp
    then show ?thesis
    proof
      assume "(x, u) = (sid, d)"
      then have "member_ok s' r' x"
        using rid k' ck v(1) by (simp add: member_ok_def)
      then show ?thesis ..
    next
      assume m: "(x, u) \<in> set (clients v)"
      from not_member_outside_chat [OF ok k st nc v(3) m] have "x \<noteq> sid" .
      with other have "map_of (sockets s') x = map_of (sockets s) x" by simp
      with v(1,3) m show ?thesis by blast
    qed
  qed
qed

lemma registry_ok_response:
  assumes ok: "registry_ok s" and sok: "steps_ok s" and uuid: "uuid \<noteq> []"
  shows "registry_ok (handle uuid (Response sid d) s)"
proof (cases "is_connected sid s")
  case False
  with ok show ?thesis by simp
next
  case True
  then obtain k where k: "map_of (sockets s) sid = Some k" and ck: "connected k"
    by (auto simp: is_connected_def split: option.splits)
  with sok obtain st where st: "state k = Some st"
    unfolding steps_ok_iff by blast
  let ?s' = "handleResponse uuid sid (trim d) s"
  have other: "\<forall>x. x \<noteq> sid \<longrightarrow> map_of (sockets ?s') x = map_of (sockets s) x"
    by (simp add: handleResponse_other)
  from k st have "registry_ok ?s'"
  proof (cases rule: handleResponse_elim [where uuid = uuid and d = "trim d"])
    case (A st')
    from ok k st other A(1,2,4) show ?thesis by (rule registry_ok_same_rooms)
  next
    case (B pk)
    from ok k st other B(1) uuid B(2) show ?thesis by (rule registry_ok_created)
  next
    case (C r rm)
    from C(1) have nc: "step st \<noteq> ''chat''" by simp
    from ok k st ck other nc C(2,4,5,6) show ?thesis by (rule registry_ok_joined)
  qed
  with True show ?thesis by (simp add: on_response_def)
qed

lemma registry_ok_handle:
  assumes "registry_ok s" and "steps_ok s" and "uuid \<noteq> []"
  shows "registry_ok (handle uuid e s)"
proof (cases e)
  case (Connection y)
  then show ?thesis using registry_ok_connection [OF assms(1)] by simp
next
  case (Response sid d)
  then show ?thesis using registry_ok_response [OF assms] by simp
next
  case (Chat_message sid d)
  with assms(1) show ?thesis
    by (simp add: registry_ok_cong [OF on_chat_message_frame(2) on_chat_message_frame(1)])
next
  case (Quit sid)
  then show ?thesis using registry_ok_quit [OF assms(1)] by simp
next
  case (Disconnect sid)
  then show ?thesis using registry_ok_disconnect [OF assms(1)] by simp
qed

lemma registry_ok_run:
  assumes "registry_ok s" and "steps_ok s" and "\<forall>p \<in> set es. fst p \<noteq> []"
  shows "registry_ok (run es s)"
  using assms
proof (induction es arbitrary: s)
  case Nil
  then show ?case by simp
next
  case (Cons p es)
  from Cons.prems have "registry_ok (handle (fst p) (snd p) s)" "steps_ok (handle (fst p) (snd p) s)"
    by (simp_all add: registry_ok_handle steps_ok_handle)
  with Cons.IH Cons.prems(3) show ?case by simp
qed

lemma registry_ok_init: "registry_ok init" "steps_ok init"
  by (simp_all add: registry_ok_def rooms_wf_def members_ok_def steps_ok_def init_def)

subsection \<open>Sessions that are members of no room\<close>

lemma ru_same: "rooms s' = rooms s \<Longrightarrow> room_username rid sid s' = room_username rid sid s"
  by (cases rid) (simp_all add: room_username_def rooms_get_def)

lemma ru_update:
  assumes "rooms s' = AList.update uuid \<lparr>passkey = pk, clients = []\<rparr> (rooms s)"
    and "room_username rid sid s = None"
  shows "room_username rid sid s' = None"
  using assms by (cases rid) (auto simp: room_username_def rooms_get_def update_conv' split: option.splits if_splits)

lemma ru_join:
  assumes "y \<noteq> sid"
    and "rooms s' = AList.map_entry r (\<lambda>rm. rm\<lparr>clients := AList.update y d (clients rm)\<rparr>) (rooms s)"
    and "room_username rid sid s = None"
  shows "room_username rid sid s' = None"
  using assms
  by (cases rid) (auto simp: room_username_def rooms_get_def map_of_map_entry update_conv' split: option.splits if_splits)

lemma ru_leave:
  assumes "rooms s' = AList.map_entry r (\<lambda>rm. rm\<lparr>clients := AList.delete y (clients rm)\<rparr>) (rooms s)"
    and "room_username rid sid s = None"
  shows "room_username rid sid s' = None"
  using assms
  by (cases rid) (auto simp: room_username_def rooms_get_def map_of_map_entry delete_conv' split: option.splits if_splits)

lemma ru_delete:
  assumes "rooms s' = AList.delete r (rooms s)" and "room_username rid sid s = None"
  shows "room_username rid sid s' = None"
  using assms
  by (cases rid) (auto simp: room_username_def rooms_get_def delete_conv' split: option.splits if_splits)

lemma leave_notice_result:
  "leave_notice y s = (None, s)
   \<or> (\<exists>r u. leave_notice y s =
         (Some r, io_to_emit r ''message'' (''*** '' @ u @ '' left the chat ***'')
            (s\<lparr>rooms := AList.map_entry r
                  (\<lambda>rm. rm\<lparr>clients := AList.delete y (clients rm)\<rparr>) (rooms s)\<rparr>)))"
proof (cases "findRoomForSocket y (rooms s)")
  case None
  then show ?thesis by (simp add: leave_notice_def)
next
  case (Some r)
  show ?thesis
  proof (cases "map_of (rooms s) r")
    case None
    with Some show ?thesis by (simp add: leave_notice_def)
  next
    case rm: (Some room)
    show ?thesis
    proof (cases "map_of (clients room) y")
      case None
      with Some rm show ?thesis by (simp add: leave_notice_def)
    next
      case u: (Some username)
      show ?thesis
      proof (cases "r = [] \<or> username = []")
        case True
        with Some rm u show ?thesis by (auto simp: leave_notice_def)
      next
        case False
        with Some rm u have "leave_notice y s =
         (Some r, io_to_emit r ''message'' (''*** '' @ username @ '' left the chat ***'')
            (s\<lparr>rooms := AList.map_entry r
                  (\<lambda>rm. rm\<lparr>clients := AList.delete y (clients rm)\<rparr>) (rooms s)\<rparr>))"
          by (simp add: leave_notice_def)
        then show ?thesis by blast
      qed
    qed
  qed
qed

lemma ru_leave_notice:
  assumes "room_username rid sid s = None"
  shows "room_username rid sid (snd (leave_notice y s)) = None"
proof -
  from leave_notice_result [of y s] show ?thesis
  proof (elim disjE exE)
    assume "leave_notice y s = (None, s)"
    with assms show ?thesis by simp
  next
    fix r u
    let ?s1 = "io_to_emit r ''message'' (''*** '' @ u @ '' left the chat ***'')
            (s\<lparr>rooms := AList.map_entry r
                  (\<lambda>rm. rm\<lparr>clients := AList.delete y (clients rm)\<rparr>) (rooms s)\<rparr>)"
    assume l: "leave_notice y s = (Some r, ?s1)"
    have "rooms ?s1 = AList.map_entry r (\<lambda>rm. rm\<lparr>clients := AList.delete y (clients rm)\<rparr>) (rooms s)"
      by (simp add: prim_simps)
    from ru_leave [OF this assms] l show ?thesis by simp
  qed
qed

lemma ru_on_disconnect:
  assumes "room_username rid sid s = None"
  shows "room_username rid sid (on_disconnect y s) = None"
proof -
  obtain a s1 where l: "leave_notice y s = (a, s1)" by (cases "leave_notice y s")
  with ru_leave_notice [OF assms, of y] have n: "room_username rid sid s1 = None" by simp
  show ?thesis
  proof (cases a)
    case None
    with l n show ?thesis by (simp add: on_disconnect_def)
  next
    case (Some r)
    show ?thesis
    proof (cases "map_of (rooms s1) r")
      case None
      with l Some n show ?thesis by (simp add: on_disconnect_def)
    next
      case rm: (Some room)
      show ?thesis
      proof (cases "clients room = []")
        case True
        have "rooms (s1\<lparr>rooms := AList.delete r (rooms s1)\<rparr>) = AList.delete r (rooms s1)" by simp
        from ru_delete [OF this n] l Some rm True show ?thesis by (simp add: on_disconnect_def)
      next
        case False
        with l Some rm n show ?thesis by (simp add: on_disconnect_def)
      qed
    qed
  qed
qed

lemma ru_socket_close:
  assumes "room_username rid sid s = None"
  shows "room_username rid sid (socket_close y s) = None"
proof (cases "is_connected y s")
  case True
  let ?s2 = "s\<lparr>sockets := AList.map_entry y (\<lambda>k. k\<lparr>joined := [], connected := False\<rparr>) (sockets s)\<rparr>"
  have "room_username rid sid ?s2 = None" using assms ru_same [of ?s2 s rid sid] by simp
  from ru_on_disconnect [OF this] True show ?thesis by (simp add: socket_close_def)
next
  case False
  with assms show ?thesis by (simp add: socket_close_def)
qed

lemma ru_on_quit:
  assumes "room_username rid sid s = None"
  shows "room_username rid sid (on_quit y s) = None"
proof -
  let ?s2 = "set_state y (Some \<lparr>step = ''choice'', roomId = None\<rparr>) (snd (leave_notice y s))"
  have "room_username rid sid ?s2 = None"
    using ru_leave_notice [OF assms, of y] ru_same [of ?s2 "snd (leave_notice y s)" rid sid]
    by (simp add: prim_simps)
  from ru_socket_close [OF this] show ?thesis by (simp add: on_quit_def)
qed

lemma hr_created_rooms:
  "rooms (snd (hr_created sid st (createRoom uuid sid pk s))) =
     AList.update uuid \<lparr>passkey = pk, clients = []\<rparr> (rooms s)"
  by (simp add: hr_created_def createRoom_def Let_def prim_simps)

lemma joinRoom_rooms:
  "rooms (joinRoom y rid d s) = rooms s
   \<or> (\<exists>r. rooms (joinRoom y rid d s)
         = AList.map_entry r (\<lambda>rm. rm\<lparr>clients := AList.update y d (clients rm)\<rparr>) (rooms s))"
proof (cases rid)
  case None
  then show ?thesis by (simp add: joinRoom_def joinRoom_missing_def prim_simps)
next
  case (Some r)
  show ?thesis
  proof (cases "map_of (rooms s) r")
    case None
    with Some show ?thesis by (simp add: joinRoom_def joinRoom_missing_def prim_simps)
  next
    case rm: (Some room)
    with Some have "rooms (joinRoom y rid d s)
         = AList.map_entry r (\<lambda>rm. rm\<lparr>clients := AList.update y d (clients rm)\<rparr>) (rooms s)"
      by (simp add: joinRoom_def joinRoom_present_def Let_def prim_simps)
    then show ?thesis by blast
  qed
qed

lemma ru_joinRoom:
  assumes "y \<noteq> sid" and "room_username rid sid s = None"
  shows "room_username rid sid (joinRoom y rid' d s) = None"
proof -
  from joinRoom_rooms [of y rid' d s] show ?thesis
  proof (elim disjE exE)
    assume "rooms (joinRoom y rid' d s) = rooms s"
    from ru_same [OF this, of rid sid] assms(2) show ?thesis by simp
  next
    fix r assume "rooms (joinRoom y rid' d s)
         = AList.map_entry r (\<lambda>rm. rm\<lparr>clients := AList.update y d (clients rm)\<rparr>) (rooms s)"
    from ru_join [OF assms(1) this assms(2)] show ?thesis .
  qed
qed

lemma ru_hr_branch:
  assumes y: "y \<noteq> sid" and n: "room_username rid sid s = None"
  shows "room_username rid sid (snd (hr_branch uuid y d st s)) = None"
proof -
  have same: "room_username rid sid s' = None" if "rooms s' = rooms s" for s'
    using ru_same [OF that, of rid sid] n by simp
  have created: "room_username rid sid (snd (hr_created y st (createRoom uuid y pk s))) = None" for pk
    by (rule ru_update [OF hr_created_rooms n])
  have "room_username rid sid (snd (hr_choice y d st s)) = None"
    by (rule same) (simp add: hr_choice_def prim_simps)
  moreover have "room_username rid sid (snd (hr_host_type uuid y d st s)) = None"
  proof (cases "d = ''1''")
    case True
    with created show ?thesis by (simp add: hr_host_type_def)
  next
    case False
    show ?thesis by (rule same) (simp add: hr_host_type_def False prim_simps)
  qed
  moreover have "room_username rid sid (snd (hr_host_passkey uuid y d st s)) = None"
  proof (cases "d = []")
    case True
    show ?thesis by (rule same) (simp add: hr_host_passkey_def True prim_simps)
  next
    case False
    with created show ?thesis by (simp add: hr_host_passkey_def)
  qed
  moreover have "room_username rid sid (snd (hr_connect_room y d st s)) = None"
    by (rule same) (simp add: hr_connect_room_def prim_simps split: option.split)
  moreover have "room_username rid sid (snd (hr_connect_passkey y d st s)) = None"
    by (rule same) (simp add: hr_connect_passkey_def prim_simps)
  moreover have "room_username rid sid (snd (hr_username y d st s)) = None"
  proof (cases "d = []")
    case True
    show ?thesis by (rule same) (simp add: hr_username_def True prim_simps)
  next
    case False
    have "rooms (snd (hr_username y d st s)) = rooms (joinRoom y (roomId st) d s)"
      using False by (simp add: hr_username_def prim_simps)
    from ru_same [OF this, of rid sid] ru_joinRoom [OF y n, of "roomId st" d] show ?thesis by simp
  qed
  moreover have "room_username rid sid (snd (hr_invalid y st s)) = None"
    by (rule same) (simp add: hr_invalid_def prim_simps)
  ultimately show ?thesis by (simp add: hr_branch_def)
qed

lemma ru_handleResponse:
  assumes "y \<noteq> sid" and "room_username rid sid s = None"
  shows "room_username rid sid (handleResponse uuid y d s) = None"
proof -
  let ?st = "case socket_state y s of None \<Rightarrow> \<lparr>step = ''choice'', roomId = None\<rparr> | Some st0 \<Rightarrow> st0"
  have "rooms (handleResponse uuid y d s) = rooms (snd (hr_branch uuid y d ?st s))"
    by (simp add: handleResponse_def Let_def prim_simps)
  from ru_same [OF this, of rid sid] ru_hr_branch [OF assms, of uuid d ?st] show ?thesis by simp
qed

lemma ru_handle_other:
  assumes "actor e \<noteq> sid" and n: "room_username rid sid s = None"
  shows "room_username rid sid (handle uuid e s) = None"
proof (cases e)
  case (Connection y)
  have "rooms (handle uuid e s) = rooms s"
    using Connection by (simp add: connection_rooms)
  from ru_same [OF this, of rid sid] n show ?thesis by simp
next
  case (Response y d)
  with assms have "y \<noteq> sid" by simp
  from ru_handleResponse [OF this n] Response n show ?thesis by (simp add: on_response_def)
next
  case (Chat_message y d)
  have "rooms (handle uuid e s) = rooms s"
    using Chat_message by (simp add: on_chat_message_frame)
  from ru_same [OF this, of rid sid] n show ?thesis by simp
next
  case (Quit y)
  with ru_on_quit [OF n, of y] n show ?thesis by simp
next
  case (Disconnect y)
  with ru_socket_close [OF n, of y] show ?thesis by simp
qed

lemma handle_other_socket:
  assumes "actor e \<noteq> sid"
  shows "map_of (sockets (handle uuid e s)) sid = map_of (sockets s) sid"
proof (cases e)
  case (Connection y)
  with assms have y: "sid \<noteq> y" by simp
  show ?thesis
  proof (cases "map_of (sockets s) y")
    case None
    from connection_sockets [OF None, of sid] y Connection None show ?thesis by simp
  next
    case (Some k)
    with Connection show ?thesis by simp
  qed
next
  case (Response y d)
  with assms handleResponse_other [of sid y] show ?thesis by (simp add: on_response_def)
next
  case (Chat_message y d)
  then show ?thesis by (simp add: on_chat_message_frame)
next
  case (Quit y)
  with assms show ?thesis by (simp add: on_quit_sockets)
next
  case (Disconnect y)
  with assms show ?thesis by (simp add: socket_close_sockets)
qed

lemma stale_cong:
  assumes "rooms s' = rooms s" and "map_of (sockets s') sid = map_of (sockets s) sid"
  shows "stale_session sid st s' = stale_session sid st s"
  using ru_same [OF assms(1), of "roomId st" sid] assms(2)
  by (simp add: stale_session_def split: option.split)

lemma handle_disconnected:
  assumes "map_of (sockets s) sid = Some k" and "\<not> connected k" and "actor e = sid"
  shows "handle uuid e s = s"
  using assms by (cases e) (simp_all add: is_connected_def socket_close_def)

lemma stale_handle:
  assumes stale: "stale_session sid st s" and chat: "step st = ''chat''"
  shows "stale_session sid st (handle uuid e s)"
proof -
  from stale obtain k where k: "map_of (sockets s) sid = Some k"
    and dj: "\<not> connected k \<or> (state k = Some st \<and> room_username (roomId st) sid s = None)"
    by (auto simp: stale_session_def split: option.splits)
  show ?thesis
  proof (cases "actor e = sid")
    case False
    have sock: "map_of (sockets (handle uuid e s)) sid = Some k"
      using handle_other_socket [OF False, of uuid s] k by simp
    from dj show ?thesis
    proof
      assume "\<not> connected k"
      with sock show ?thesis by (simp add: stale_session_def)
    next
      assume a: "state k = Some st \<and> room_username (roomId st) sid s = None"
      then have "room_username (roomId st) sid (handle uuid e s) = None"
        using ru_handle_other [OF False, of "roomId st" s uuid] by simp
      with sock a show ?thesis by (simp add: stale_session_def)
    qed
  next
    case True
    show ?thesis
    proof (cases "connected k")
      case False
      from handle_disconnected [OF k False True] stale show ?thesis by simp
    next
      case con: True
      with dj have st: "state k = Some st" and n: "room_username (roomId st) sid s = None" by auto
      from con k have ic: "is_connected sid s" by (simp add: is_connected_def)
      show ?thesis
      proof (cases e)
        case (Connection y)
        with True k stale show ?thesis by simp
      next
        case (Response y d)
        with True have y: "y = sid" by simp
        from k st have "stale_session sid st (handleResponse uuid sid (trim d) s)"
        proof (cases rule: handleResponse_elim [where uuid = uuid and d = "trim d"])
          case (A st')
          with chat have "st' = st" by simp
          with A(2) st have "map_of (sockets (handleResponse uuid sid (trim d) s)) sid = map_of (sockets s) sid"
            using k by simp
          from stale_cong [OF A(1) this] stale show ?thesis by simp
        next
          case (B pk)
          with chat show ?thesis by simp
        next
          case (C r rm)
          with chat show ?thesis by simp
        qed
        with Response y ic show ?thesis by (simp add: on_response_def)
      next
        case (Chat_message y d)
        with True have y: "y = sid" by simp
        have "stale_session sid st (on_chat_message sid d s) = stale_session sid st s"
          by (rule stale_cong) (simp_all add: on_chat_message_frame)
        with Chat_message y ic stale show ?thesis by simp
      next
        case (Quit y)
        with True have y: "y = sid" by simp
        from on_quit_sockets [OF ic, of sid] k Quit y ic show ?thesis
          by (simp add: stale_session_def)
      next
        case (Disconnect y)
        with True have y: "y = sid" by simp
        from socket_close_sockets [of sid s sid] k Disconnect y ic show ?thesis
          by (simp add: stale_session_def)
      qed
    qed
  qed
qed

lemma stale_run:
  assumes "stale_session sid st s" and "step st = ''chat''"
  shows "stale_session sid st (run es s)"
  using assms by (induction es arbitrary: s) (simp_all add: stale_handle)

lemma stale_chat_message:
  assumes stale: "stale_session sid st s" and chat: "step st = ''chat''"
    and ic: "is_connected sid s" and m: "m \<noteq> []"
  shows "handle uuid (Chat_message sid m) s =
           socket_emit sid ''error'' ''Not in a valid room or username not set.'' s"
proof -
  from stale ic have "socket_state sid s = Some st" "room_username (roomId st) sid s = None"
    by (auto simp: stale_session_def is_connected_def socket_state_def split: option.splits)
  with chat ic m show ?thesis by (simp add: on_chat_message_def)
qed

lemma join_missing_room:
  assumes ss: "socket_state sid s = Some st" and u: "step st = ''username''"
    and gone: "rooms_get (roomId st) s = None" and d: "d \<noteq> []"
  shows "socket_state sid (handleResponse uuid sid d s) = Some (st\<lparr>step := ''chat''\<rparr>)"
    and "rooms (handleResponse uuid sid d s) = rooms s"
    and "sent (handleResponse uuid sid d s) = sent s @
           [\<lparr>dest = To_socket sid, event = ''error'', payload = ''Room no longer exists.'', receivers = [sid]\<rparr>,
            \<lparr>dest = To_socket sid, event = ''prompt'', payload = choice_prompt, receivers = [sid]\<rparr>,
            \<lparr>dest = To_socket sid, event = ''message'', payload = ''type and hit enter to send a message'',
              receivers = [sid]\<rparr>]"
proof -
  obtain k where k: "map_of (sockets s) sid = Some k"
    using socket_state_SomeD [OF ss] by blast
  have b: "hr_branch uuid sid d st s = hr_username sid d st s"
    using u by (simp add: hr_branch_def)
  have j: "joinRoom sid (roomId st) d s = joinRoom_missing sid s"
    using gone by (simp add: joinRoom_def rooms_get_def split: option.splits)
  show "socket_state sid (handleResponse uuid sid d s) = Some (st\<lparr>step := ''chat''\<rparr>)"
    using k d by (simp add: handleResponse_unfold [OF ss] b hr_username_def j
        socket_state_set_state joinRoom_missing_effect [OF k] prim_simps)
  show "rooms (handleResponse uuid sid d s) = rooms s"
    using d by (simp add: handleResponse_unfold [OF ss] b hr_username_def j
        joinRoom_missing_effect [OF k] prim_simps)
  show "sent (handleResponse uuid sid d s) = sent s @
           [\<lparr>dest = To_socket sid, event = ''error'', payload = ''Room no longer exists.'', receivers = [sid]\<rparr>,
            \<lparr>dest = To_socket sid, event = ''prompt'', payload = choice_prompt, receivers = [sid]\<rparr>,
            \<lparr>dest = To_socket sid, event = ''message'', payload = ''type and hit enter to send a message'',
              receivers = [sid]\<rparr>]"
    using d by (simp add: handleResponse_unfold [OF ss] b hr_username_def j
        joinRoom_missing_def prim_simps)
qed

lemma member_in_adapter:
  assumes "member_ok s r x"
  shows "x \<in> set (adapter_room r s)"
proof -
  from assms obtain k where k: "map_of (sockets s) x = Some k" "connected k" "r \<in> set (joined k)"
    by (rule member_okD)
  from map_of_SomeD [OF k(1)] k(2,3) show ?thesis
    by (force simp: adapter_room_def)
qed

lemma reachable_ok:
  assumes "\<forall>p \<in> set es. fst p \<noteq> []"
  shows "registry_ok (run es init)"
  by (rule registry_ok_run [OF registry_ok_init assms])

lemma member_facts:
  assumes ok: "registry_ok s" and rm: "map_of (rooms s) r = Some rm"
    and u: "map_of (clients rm) sid = Some u"
  shows "(r, rm) \<in> set (rooms s)" and "r \<noteq> []" and "u \<noteq> []" and "member_ok s r sid"
    and "is_connected sid s"
    and "\<forall>r' rm'. (r', rm') \<in> set (rooms s) \<longrightarrow> map_of (clients rm') sid \<noteq> None \<longrightarrow> r' = r"
proof -
  show in_s: "(r, rm) \<in> set (rooms s)" using rm by (rule map_of_SomeD)
  have in_c: "(sid, u) \<in> set (clients rm)" using u by (rule map_of_SomeD)
  from rooms_wfD [OF registry_okD(1) [OF ok] in_s] in_c show "r \<noteq> []" "u \<noteq> []" by auto
  show m: "member_ok s r sid" by (rule registry_okD(3) [OF ok in_s in_c])
  then show "is_connected sid s" by (auto simp: member_ok_def is_connected_def split: option.splits)
  show "\<forall>r' rm'. (r', rm') \<in> set (rooms s) \<longrightarrow> map_of (clients rm') sid \<noteq> None \<longrightarrow> r' = r"
    using members_sole [OF registry_okD(2) [OF ok] in_s u] by blast
qed

subsection \<open>Hosting a room\<close>

text \<open>
  C2. The claim: at \<open>host_type\<close> the answer \<open>1\<close>, and at \<open>host_passkey\<close> any non-empty
  text, creates the room, commits it to the session and moves the session to \<open>username\<close>.
  The code creates the room and leaves \<^verbatim>\<open>socket.state\<close> as it was: \<^verbatim>\<open>res.state\<close> is
  undefined, and the last statement of \<^verbatim>\<open>handleResponse\<close> stores the object read on entry,
  whose step no statement of these branches assigns. The theorem states what the code
  does: the room is in the registry and the session has the state it had.
\<close>

theorem host_room_created_step_kept:
  assumes "socket_state sid s = Some st"
  shows "(step st = ''host_type'' \<longrightarrow>
            socket_state sid (handleResponse uuid sid ''1'' s) = Some st
          \<and> rooms (handleResponse uuid sid ''1'' s) =
              AList.update uuid \<lparr>passkey = None, clients = []\<rparr> (rooms s))
       \<and> (step st = ''host_passkey'' \<and> data \<noteq> [] \<longrightarrow>
            socket_state sid (handleResponse uuid sid data s) = Some st
          \<and> rooms (handleResponse uuid sid data s) =
              AList.update uuid \<lparr>passkey = Some data, clients = []\<rparr> (rooms s))"
proof -
  obtain k where k: "map_of (sockets s) sid = Some k"
    using socket_state_SomeD [OF assms] by blast
  show ?thesis
    by (simp add: handleResponse_unfold [OF assms] hr_branch_def hr_host_type_def
        hr_host_passkey_def hr_created_effect [OF k] socket_state_set_state prim_simps)
qed

theorem host_room_created_step_kept_witness:
  "socket_state ''h'' (run scenario_host init) = Some \<lparr>step = ''host_type'', roomId = None\<rparr>
   \<and> socket_state ''h'' (handleResponse ''r1'' ''h'' ''1'' (run scenario_host init))
       = Some \<lparr>step = ''host_type'', roomId = None\<rparr>
   \<and> rooms (handleResponse ''r1'' ''h'' ''1'' (run scenario_host init))
       = [(''r1'', \<lparr>passkey = None, clients = []\<rparr>)]"
proof -
  have h: "socket_state ''h'' (run scenario_host init) = Some \<lparr>step = ''host_type'', roomId = None\<rparr>"
    by code_simp
  have r: "rooms (run scenario_host init) = []"
    by code_simp
  from host_room_created_step_kept [OF h, of "''r1''" "''x''"] show ?thesis
    using h r by simp
qed

text \<open>The next answer of that host is therefore read as an answer to \<open>host_type\<close>: a
  username is rejected as an invalid option.\<close>

lemma host_answer_not_a_username:
  "map_option step (socket_state ''h'' (run (scenario_host @ [(''r1'', Response ''h'' ''1''),
       (''u0'', Response ''h'' ''alice'')]) init)) = Some ''host_type''
   \<and> map payload (drop 4 (sent (run (scenario_host @ [(''r1'', Response ''h'' ''1''),
       (''u0'', Response ''h'' ''alice'')]) init)))
     = [''Invalid option. Choose 1 or 2.'', ''Make room [1] open or [2] private: '']"
  by code_simp

subsection \<open>Chat messages before the chat step\<close>

text \<open>
  C3, as amended. The claim: a \<open>chat_message\<close> of a session whose step is not \<open>chat\<close> is
  answered with a private error and has no other effect. The handler has one guarded
  block and no alternative: outside \<open>chat\<close> the event changes nothing and nothing is sent,
  the error included.
\<close>

theorem chat_message_outside_chat_ignored:
  assumes "socket_state sid s = Some st" and "step st \<noteq> ''chat''"
  shows "handle uuid (Chat_message sid data) s = s"
  using assms by (simp add: on_chat_message_def)

theorem chat_message_outside_chat_ignored_witness:
  "socket_state ''h'' (run scenario_host init) = Some \<lparr>step = ''host_type'', roomId = None\<rparr>
   \<and> handle ''u'' (Chat_message ''h'' ''hi'') (run scenario_host init) = run scenario_host init"
proof -
  have h: "socket_state ''h'' (run scenario_host init) = Some \<lparr>step = ''host_type'', roomId = None\<rparr>"
    by code_simp
  from chat_message_outside_chat_ignored [OF h, of "''u''" "''hi''"] show ?thesis
    using h by simp
qed

text \<open>The claim as stated fails: a new connection that sends a chat message has been sent
  its first prompt and nothing else.\<close>

theorem chat_message_outside_chat_no_error:
  "map event (sent (run [(''u'', Connection ''a''), (''u'', Chat_message ''a'' ''hi'')] init))
     = [''prompt'']"
  by code_simp

text \<open>
  C6. A chat message a session submits while its step is not \<open>chat\<close> is never delivered
  to any other connection: the run with the message and the run without it end in the
  same server state, whatever follows, so no emission of the run carries the payload.
\<close>

theorem chat_outside_chat_never_delivered:
  assumes "socket_state sid (run es s0) = Some st" and "step st \<noteq> ''chat''"
  shows "run (es @ (uuid, Chat_message sid data) # es') s0 = run (es @ es') s0"
  using assms by (simp add: run_append on_chat_message_def)

theorem chat_outside_chat_never_delivered_witness:
  "socket_state ''a'' (run scenario_private init)
     = Some \<lparr>step = ''connect_passkey'', roomId = Some ''r1''\<rparr>
   \<and> run (scenario_private @ (''u'', Chat_message ''a'' ''hi'') # [(''u'', Response ''a'' ''secret'')]) init
     = run (scenario_private @ [(''u'', Response ''a'' ''secret'')]) init"
proof -
  have h: "socket_state ''a'' (run scenario_private init)
             = Some \<lparr>step = ''connect_passkey'', roomId = Some ''r1''\<rparr>"
    by code_simp
  from chat_outside_chat_never_delivered [OF h, of "''u''" "''hi''" "[(''u'', Response ''a'' ''secret'')]"]
  show ?thesis using h by simp
qed

subsection \<open>The passkey check\<close>

text \<open>
  C4. At \<open>connect_passkey\<close> the session reaches \<open>username\<close> exactly when the room recorded
  in the session is in the registry and its passkey is the text \<^verbatim>\<open>handleResponse\<close> was
  given (the trimmed answer). Otherwise, the room gone or the text different, the error
  \<open>Invalid passkey.\<close> and the passkey prompt are sent and the session is as before.
\<close>

theorem connect_passkey_exact_match:
  assumes "socket_state sid s = Some st" and "step st = ''connect_passkey''"
  shows "(map_option step (socket_state sid (handleResponse uuid sid data s)) = Some ''username''
            \<longleftrightarrow> (\<exists>room. rooms_get (roomId st) s = Some room \<and> passkey room = Some data))
       \<and> (\<not> (\<exists>room. rooms_get (roomId st) s = Some room \<and> passkey room = Some data) \<longrightarrow>
            socket_state sid (handleResponse uuid sid data s) = Some st
          \<and> sent (handleResponse uuid sid data s) = sent s @
               [\<lparr>dest = To_socket sid, event = ''error'', payload = ''Invalid passkey.'',
                 receivers = [sid]\<rparr>,
                \<lparr>dest = To_socket sid, event = ''prompt'', payload = ''Enter passkey: '',
                 receivers = [sid]\<rparr>])"
proof -
  obtain k where k: "map_of (sockets s) sid = Some k"
    using socket_state_SomeD [OF assms(1)] by blast
  have b: "hr_branch uuid sid data st s = hr_connect_passkey sid data st s"
    using assms(2) by (simp add: hr_branch_def)
  show ?thesis
  proof (cases "\<exists>room. rooms_get (roomId st) s = Some room \<and> passkey room = Some data")
    case True
    then show ?thesis
      using k by (auto simp: handleResponse_unfold [OF assms(1)] b hr_connect_passkey_def
          socket_state_set_state prim_simps)
  next
    case False
    then have c: "(case rooms_get (roomId st) s of None \<Rightarrow> True | Some room \<Rightarrow> Some data \<noteq> passkey room)"
      by (auto split: option.splits)
    show ?thesis
      using k False assms(2)
      by (simp add: handleResponse_unfold [OF assms(1)] b hr_connect_passkey_def c
          socket_state_set_state prim_simps)
  qed
qed

theorem connect_passkey_exact_match_witness:
  "socket_state ''a'' (run scenario_private init)
     = Some \<lparr>step = ''connect_passkey'', roomId = Some ''r1''\<rparr>
   \<and> map_option step (socket_state ''a'' (handleResponse ''u'' ''a'' ''secret'' (run scenario_private init)))
     = Some ''username''
   \<and> socket_state ''a'' (handleResponse ''u'' ''a'' ''wrong'' (run scenario_private init))
     = Some \<lparr>step = ''connect_passkey'', roomId = Some ''r1''\<rparr>"
proof -
  have h: "socket_state ''a'' (run scenario_private init)
             = Some \<lparr>step = ''connect_passkey'', roomId = Some ''r1''\<rparr>"
    by code_simp
  have r: "rooms_get (Some ''r1'') (run scenario_private init)
             = Some \<lparr>passkey = Some ''secret'', clients = []\<rparr>"
    by code_simp
  from connect_passkey_exact_match [OF h, of "''u''" "''secret''"]
       connect_passkey_exact_match [OF h, of "''u''" "''wrong''"]
  show ?thesis using h r by simp
qed

subsection \<open>Rejected input\<close>

text \<open>In the steps \<open>choice\<close>, \<open>host_type\<close>, \<open>host_passkey\<close>, \<open>connect_room\<close> and
  \<open>username\<close> a rejected input is answered with an error and then the prompt of the same
  step, and the session and the registry stay as they are.\<close>

lemma rejected_input_reprompts:
  assumes ss: "socket_state sid s = Some st"
  shows "step st = ''choice'' \<Longrightarrow> d \<noteq> ''1'' \<Longrightarrow> d \<noteq> ''2'' \<Longrightarrow>
           socket_state sid (handleResponse uuid sid d s) = Some st
         \<and> rooms (handleResponse uuid sid d s) = rooms s
         \<and> sent (handleResponse uuid sid d s) =
             sent (socket_emit sid ''prompt'' choice_prompt
                    (socket_emit sid ''error'' ''Invalid option. Choose 1 or 2.'' s))"
    and "step st = ''host_type'' \<Longrightarrow> d \<noteq> ''1'' \<Longrightarrow> d \<noteq> ''2'' \<Longrightarrow>
           socket_state sid (handleResponse uuid sid d s) = Some st
         \<and> rooms (handleResponse uuid sid d s) = rooms s
         \<and> sent (handleResponse uuid sid d s) =
             sent (socket_emit sid ''prompt'' ''Make room [1] open or [2] private: ''
                    (socket_emit sid ''error'' ''Invalid option. Choose 1 or 2.'' s))"
    and "step st = ''host_passkey'' \<Longrightarrow> d = [] \<Longrightarrow>
           socket_state sid (handleResponse uuid sid d s) = Some st
         \<and> rooms (handleResponse uuid sid d s) = rooms s
         \<and> sent (handleResponse uuid sid d s) =
             sent (socket_emit sid ''prompt'' ''Set a passkey: ''
                    (socket_emit sid ''error'' ''Passkey cannot be empty.'' s))"
    and "step st = ''connect_room'' \<Longrightarrow> map_of (rooms s) d = None \<Longrightarrow>
           socket_state sid (handleResponse uuid sid d s) = Some st
         \<and> rooms (handleResponse uuid sid d s) = rooms s
         \<and> sent (handleResponse uuid sid d s) =
             sent (socket_emit sid ''prompt'' ''Enter room ID: ''
                    (socket_emit sid ''error'' ''Room does not exist.'' s))"
    and "step st = ''username'' \<Longrightarrow> d = [] \<Longrightarrow>
           socket_state sid (handleResponse uuid sid d s) = Some st
         \<and> rooms (handleResponse uuid sid d s) = rooms s
         \<and> sent (handleResponse uuid sid d s) =
             sent (socket_emit sid ''prompt'' ''Enter your username: ''
                    (socket_emit sid ''error'' ''Username cannot be empty.'' s))"
proof -
  obtain k where k: "map_of (sockets s) sid = Some k"
    using socket_state_SomeD [OF ss] by blast
  note u = handleResponse_unfold [OF ss] socket_state_set_state prim_simps
  show "step st = ''choice'' \<Longrightarrow> d \<noteq> ''1'' \<Longrightarrow> d \<noteq> ''2'' \<Longrightarrow>
           socket_state sid (handleResponse uuid sid d s) = Some st
         \<and> rooms (handleResponse uuid sid d s) = rooms s
         \<and> sent (handleResponse uuid sid d s) =
             sent (socket_emit sid ''prompt'' choice_prompt
                    (socket_emit sid ''error'' ''Invalid option. Choose 1 or 2.'' s))"
    using k by (simp add: u hr_branch_def hr_choice_def)
  show "step st = ''host_type'' \<Longrightarrow> d \<noteq> ''1'' \<Longrightarrow> d \<noteq> ''2'' \<Longrightarrow>
           socket_state sid (handleResponse uuid sid d s) = Some st
         \<and> rooms (handleResponse uuid sid d s) = rooms s
         \<and> sent (handleResponse uuid sid d s) =
             sent (socket_emit sid ''prompt'' ''Make room [1] open or [2] private: ''
                    (socket_emit sid ''error'' ''Invalid option. Choose 1 or 2.'' s))"
    using k by (simp add: u hr_branch_def hr_host_type_def)
  show "step st = ''host_passkey'' \<Longrightarrow> d = [] \<Longrightarrow>
           socket_state sid (handleResponse uuid sid d s) = Some st
         \<and> rooms (handleResponse uuid sid d s) = rooms s
         \<and> sent (handleResponse uuid sid d s) =
             sent (socket_emit sid ''prompt'' ''Set a passkey: ''
                    (socket_emit sid ''error'' ''Passkey cannot be empty.'' s))"
    using k by (simp add: u hr_branch_def hr_host_passkey_def)
  show "step st = ''connect_room'' \<Longrightarrow> map_of (rooms s) d = None \<Longrightarrow>
           socket_state sid (handleResponse uuid sid d s) = Some st
         \<and> rooms (handleResponse uuid sid d s) = rooms s
         \<and> sent (handleResponse uuid sid d s) =
             sent (socket_emit sid ''prompt'' ''Enter room ID: ''
                    (socket_emit sid ''error'' ''Room does not exist.'' s))"
    using k by (simp add: u hr_branch_def hr_connect_room_def)
  show "step st = ''username'' \<Longrightarrow> d = [] \<Longrightarrow>
           socket_state sid (handleResponse uuid sid d s) = Some st
         \<and> rooms (handleResponse uuid sid d s) = rooms s
         \<and> sent (handleResponse uuid sid d s) =
             sent (socket_emit sid ''prompt'' ''Enter your username: ''
                    (socket_emit sid ''error'' ''Username cannot be empty.'' s))"
    using k by (simp add: u hr_branch_def hr_username_def)
qed

subsection \<open>A response in the chat step\<close>

text \<open>
  C8. The claim: every rejected input is answered with an error and the prompt of the step
  the session is then in, and a corrupted state is reset to \<open>choice\<close>. The last branch of
  \<^verbatim>\<open>handleResponse\<close>, taken when the step is none of the six it tests (a response sent in
  the \<open>chat\<close> step), sends the error and the prompt of \<open>choice\<close> and assigns a \<open>choice\<close>
  state, which the final \<^verbatim>\<open>socket.state = state\<close> replaces by the state read on entry:
  the session keeps its step.
\<close>

theorem response_in_chat_keeps_step:
  assumes "socket_state sid s = Some st"
    and "step st \<notin> set [''choice'', ''host_type'', ''host_passkey'', ''connect_room'',
                          ''connect_passkey'', ''username'']"
  shows "socket_state sid (handleResponse uuid sid data s) = Some st
       \<and> rooms (handleResponse uuid sid data s) = rooms s
       \<and> sent (handleResponse uuid sid data s) = sent s @
            [\<lparr>dest = To_socket sid, event = ''error'', payload = ''Invalid state. Please reconnect.'',
              receivers = [sid]\<rparr>,
             \<lparr>dest = To_socket sid, event = ''prompt'', payload = choice_prompt, receivers = [sid]\<rparr>]"
proof -
  obtain k where k: "map_of (sockets s) sid = Some k"
    using socket_state_SomeD [OF assms(1)] by blast
  have b: "hr_branch uuid sid data st s = hr_invalid sid st s"
    using assms(2) by (simp add: hr_branch_def)
  show ?thesis
    using k by (simp add: handleResponse_unfold [OF assms(1)] b hr_invalid_def
        socket_state_set_state prim_simps)
qed

theorem response_in_chat_keeps_step_witness:
  "socket_state ''b'' (run scenario_chat init) = Some \<lparr>step = ''chat'', roomId = Some ''r1''\<rparr>
   \<and> socket_state ''b'' (handleResponse ''u'' ''b'' ''hello'' (run scenario_chat init))
       = Some \<lparr>step = ''chat'', roomId = Some ''r1''\<rparr>"
proof -
  have h: "socket_state ''b'' (run scenario_chat init) = Some \<lparr>step = ''chat'', roomId = Some ''r1''\<rparr>"
    by code_simp
  from response_in_chat_keeps_step [OF h, of "''u''" "''hello''"] show ?thesis
    using h by simp
qed

subsection \<open>The step of a session\<close>

text \<open>
  C5. After any sequence of inbound events, every socket has a state whose step is one of
  \<open>choice\<close>, \<open>host_type\<close>, \<open>host_passkey\<close>, \<open>connect_room\<close>, \<open>connect_passkey\<close>,
  \<open>username\<close>, \<open>chat\<close>.
\<close>

theorem step_always_enumerated: "steps_ok (run es init)"
  by (rule steps_ok_run) (simp add: steps_ok_def init_def)

theorem step_always_enumerated_witness:
  "map fst (sockets (run scenario_chat init)) = [''h'', ''b'', ''c'']
   \<and> map (\<lambda>sid. map_option step (socket_state sid (run scenario_chat init))) [''h'', ''b'', ''c'']
       = [Some ''host_type'', Some ''chat'', Some ''chat'']
   \<and> steps_ok (run scenario_chat init)"
proof -
  have "map fst (sockets (run scenario_chat init)) = [''h'', ''b'', ''c'']"
    by code_simp
  moreover have "map (\<lambda>sid. map_option step (socket_state sid (run scenario_chat init))) [''h'', ''b'', ''c'']
       = [Some ''host_type'', Some ''chat'', Some ''chat'']"
    by code_simp
  ultimately show ?thesis
    using step_always_enumerated [of scenario_chat] by simp
qed

subsection \<open>Joining a room that is gone\<close>

text \<open>
  C9. A session at \<open>username\<close> whose recorded room is not in the registry and that
  submits a non-empty username is sent the error \<open>Room no longer exists.\<close> (and the
  prompt of \<open>choice\<close>), and ends at step \<open>chat\<close> with the room id it had: the reset
  \<^verbatim>\<open>joinRoom\<close> makes is replaced by the final store of \<^verbatim>\<open>handleResponse\<close>. Whatever
  events follow, every non-empty chat message the session sends while connected is
  answered with the private error \<open>Not in a valid room or username not set.\<close> and
  nothing else happens.
\<close>

theorem stale_room_username_reaches_chat:
  assumes ic: "is_connected sid s" and ss: "socket_state sid s = Some st"
    and u: "step st = ''username''" and gone: "rooms_get (roomId st) s = None"
    and d: "trim d \<noteq> []"
  shows "socket_state sid (handle uuid (Response sid d) s) = Some (st\<lparr>step := ''chat''\<rparr>)
       \<and> sent (handle uuid (Response sid d) s) = sent s @
           [\<lparr>dest = To_socket sid, event = ''error'', payload = ''Room no longer exists.'', receivers = [sid]\<rparr>,
            \<lparr>dest = To_socket sid, event = ''prompt'', payload = choice_prompt, receivers = [sid]\<rparr>,
            \<lparr>dest = To_socket sid, event = ''message'', payload = ''type and hit enter to send a message'',
              receivers = [sid]\<rparr>]
       \<and> (\<forall>es uuid' m. m \<noteq> [] \<and> is_connected sid (run es (handle uuid (Response sid d) s)) \<longrightarrow>
            handle uuid' (Chat_message sid m) (run es (handle uuid (Response sid d) s)) =
              socket_emit sid ''error'' ''Not in a valid room or username not set.''
                (run es (handle uuid (Response sid d) s)))"
proof -
  let ?s1 = "handleResponse uuid sid (trim d) s"
  let ?st = "st\<lparr>step := ''chat''\<rparr>"
  have h: "handle uuid (Response sid d) s = ?s1"
    using ic by (simp add: on_response_def)
  note j = join_missing_room [OF ss u gone d, of uuid]
  have chat: "step ?st = ''chat''" by simp
  have "room_username (roomId st) sid s = None"
    using gone by (simp add: room_username_def)
  with ru_same [OF j(2), of "roomId st" sid] have "room_username (roomId ?st) sid ?s1 = None"
    by simp
  moreover from j(1) obtain k' where "map_of (sockets ?s1) sid = Some k'" "state k' = Some ?st"
    by (blast dest: socket_state_SomeD)
  ultimately have stale: "stale_session sid ?st ?s1"
    by (simp add: stale_session_def)
  have "handle uuid' (Chat_message sid m) (run es ?s1) =
          socket_emit sid ''error'' ''Not in a valid room or username not set.'' (run es ?s1)"
    if "m \<noteq> []" "is_connected sid (run es ?s1)" for es uuid' m
    by (rule stale_chat_message [OF stale_run [OF stale chat] chat that(2,1)])
  with j(1,3) show ?thesis unfolding h by blast
qed

theorem stale_room_username_reaches_chat_witness:
  "is_connected ''c'' (run scenario_stale init)
   \<and> socket_state ''c'' (run scenario_stale init) = Some \<lparr>step = ''username'', roomId = Some ''r1''\<rparr>
   \<and> rooms_get (Some ''r1'') (run scenario_stale init) = None
   \<and> socket_state ''c'' (handle ''u'' (Response ''c'' ''carol'') (run scenario_stale init))
       = Some \<lparr>step = ''chat'', roomId = Some ''r1''\<rparr>
   \<and> handle ''u'' (Chat_message ''c'' ''hi'') (handle ''u'' (Response ''c'' ''carol'') (run scenario_stale init))
       = socket_emit ''c'' ''error'' ''Not in a valid room or username not set.''
           (handle ''u'' (Response ''c'' ''carol'') (run scenario_stale init))"
proof -
  have h1: "is_connected ''c'' (run scenario_stale init)"
    by code_simp
  have h2: "socket_state ''c'' (run scenario_stale init) = Some \<lparr>step = ''username'', roomId = Some ''r1''\<rparr>"
    by code_simp
  have h3: "step \<lparr>step = ''username'', roomId = Some ''r1''\<rparr> = ''username''"
    by simp
  have h4: "rooms_get (roomId \<lparr>step = ''username'', roomId = Some ''r1''\<rparr>) (run scenario_stale init) = None"
    by code_simp
  have h5: "trim ''carol'' \<noteq> []"
    by code_simp
  have h6: "is_connected ''c'' (run [] (handle ''u'' (Response ''c'' ''carol'') (run scenario_stale init)))"
    by code_simp
  from stale_room_username_reaches_chat [OF h1 h2 h3 h4 h5, of "''u''"] h6
  have "socket_state ''c'' (handle ''u'' (Response ''c'' ''carol'') (run scenario_stale init))
          = Some \<lparr>step = ''chat'', roomId = Some ''r1''\<rparr>"
    and "handle ''u'' (Chat_message ''c'' ''hi'')
           (run [] (handle ''u'' (Response ''c'' ''carol'') (run scenario_stale init)))
          = socket_emit ''c'' ''error'' ''Not in a valid room or username not set.''
              (run [] (handle ''u'' (Response ''c'' ''carol'') (run scenario_stale init)))"
    by (simp, blast)
  with h1 h2 h4 show ?thesis by simp
qed

subsection \<open>Chatting in a room\<close>

text \<open>
  C7. In a state reached from the empty server (every generated room id non-empty), let
  \<open>sid\<close> be a member of room \<open>r\<close> under the name \<open>u\<close>; such a session is at step
  \<open>chat\<close>. Its non-empty chat message \<open>d\<close> is emitted once, to the room, as the
  \<open>message\<close> event \<open>[u] d\<close>, and the receivers include the sender and every member of
  the room.
\<close>

theorem chat_message_broadcast_to_room:
  assumes "\<forall>p \<in> set es. fst p \<noteq> []"
    and "map_of (rooms (run es init)) r = Some rm"
    and "map_of (clients rm) sid = Some u"
    and "d \<noteq> []"
  shows "handle uuid (Chat_message sid d) (run es init) =
           (run es init)\<lparr>sent := sent (run es init) @
              [\<lparr>dest = To_room r, event = ''message'', payload = ''['' @ u @ ''] '' @ d,
                receivers = adapter_room r (run es init)\<rparr>]\<rparr>
       \<and> sid \<in> set (adapter_room r (run es init))
       \<and> fst ` set (clients rm) \<subseteq> set (adapter_room r (run es init))"
proof -
  let ?s = "run es init"
  have ok: "registry_ok ?s" by (rule reachable_ok [OF assms(1)])
  note f = member_facts [OF ok assms(2,3)]
  from f(4) obtain k st where k: "map_of (sockets ?s) sid = Some k" "state k = Some st"
    "step st = ''chat''" "roomId st = Some r"
    by (rule member_okD)
  have ss: "socket_state sid ?s = Some st" using k by (simp add: socket_state_def)
  have ru: "room_username (roomId st) sid ?s = Some u"
    using k(4) assms(2,3) by (simp add: room_username_def rooms_get_def)
  have "handle uuid (Chat_message sid d) ?s =
          io_to_emit r ''message'' (''['' @ u @ ''] '' @ d) ?s"
    using f(5) ss ru k(3,4) f(2,3) assms(4) by (simp add: on_chat_message_def)
  moreover have "sid \<in> set (adapter_room r ?s)" by (rule member_in_adapter [OF f(4)])
  moreover have "fst ` set (clients rm) \<subseteq> set (adapter_room r ?s)"
  proof
    fix x assume "x \<in> fst ` set (clients rm)"
    then obtain u' where "(x, u') \<in> set (clients rm)" by auto
    from registry_okD(3) [OF ok f(1) this] show "x \<in> set (adapter_room r ?s)"
      by (rule member_in_adapter)
  qed
  ultimately show ?thesis by (simp add: io_to_emit_def)
qed

theorem chat_message_broadcast_to_room_witness:
  "list_all (\<lambda>p. fst p \<noteq> []) scenario_chat
   \<and> map_of (rooms (run scenario_chat init)) ''r1''
       = Some \<lparr>passkey = None, clients = [(''b'', ''bob''), (''c'', ''carol'')]\<rparr>
   \<and> sent (handle ''u'' (Chat_message ''b'' ''hi'') (run scenario_chat init))
       = sent (run scenario_chat init) @
           [\<lparr>dest = To_room ''r1'', event = ''message'', payload = ''[bob] hi'',
             receivers = [''b'', ''c'']\<rparr>]"
proof -
  have h1: "\<forall>p \<in> set scenario_chat. fst p \<noteq> []"
    by (simp add: scenario_chat_def)
  have h2: "map_of (rooms (run scenario_chat init)) ''r1''
       = Some \<lparr>passkey = None, clients = [(''b'', ''bob''), (''c'', ''carol'')]\<rparr>"
    by code_simp
  have h3: "map_of (clients \<lparr>passkey = None, clients = [(''b'', ''bob''), (''c'', ''carol'')]\<rparr>) ''b''
       = Some ''bob''"
    by simp
  have h4: "''hi'' \<noteq> []"
    by simp
  have a: "adapter_room ''r1'' (run scenario_chat init) = [''b'', ''c'']"
    by code_simp
  have l: "list_all (\<lambda>p. fst p \<noteq> []) scenario_chat"
    by (simp add: scenario_chat_def)
  from chat_message_broadcast_to_room [OF h1 h2 h3 h4, of "''u''"] a l h2 show ?thesis
    by simp
qed

subsection \<open>Leaving a room\<close>

text \<open>
  C10. In a state reached from the empty server (every generated room id non-empty), let
  \<open>sid\<close> be a member of room \<open>r\<close> under the name \<open>u\<close>. Handling its \<open>quit\<close>, the
  disconnect handler the close triggers included, emits exactly one event, the notice
  \<open>*** u left the chat ***\<close> to room \<open>r\<close>, and removes \<open>sid\<close> from the members of
  \<open>r\<close> and changes no other room. The disconnect handler finds no room for the socket:
  run on the resulting state it changes nothing, and so does a later disconnect event.
\<close>

theorem quit_broadcasts_one_notice:
  assumes "\<forall>p \<in> set es. fst p \<noteq> []"
    and "map_of (rooms (run es init)) r = Some rm"
    and "map_of (clients rm) sid = Some u"
  shows "sent (handle uuid (Quit sid) (run es init)) = sent (run es init) @
           [\<lparr>dest = To_room r, event = ''message'', payload = ''*** '' @ u @ '' left the chat ***'',
             receivers = adapter_room r (run es init)\<rparr>]
       \<and> rooms (handle uuid (Quit sid) (run es init)) =
           AList.map_entry r (\<lambda>rm. rm\<lparr>clients := AList.delete sid (clients rm)\<rparr>) (rooms (run es init))
       \<and> on_disconnect sid (handle uuid (Quit sid) (run es init)) = handle uuid (Quit sid) (run es init)
       \<and> handle uuid' (Disconnect sid) (handle uuid (Quit sid) (run es init))
           = handle uuid (Quit sid) (run es init)"
proof -
  let ?s = "run es init"
  have ok: "registry_ok ?s" by (rule reachable_ok [OF assms(1)])
  note f = member_facts [OF ok assms(2,3)]
  note q = on_quit_member [OF f(5) registry_okD(1) [OF ok] f(1) assms(3) f(6)]
  have h: "handle uuid (Quit sid) ?s = on_quit sid ?s" using f(5) by simp
  have none: "findRoomForSocket sid (rooms (on_quit sid ?s)) = None"
    using left_every_room [OF registry_okD(1) [OF ok] f(6)] by (simp add: q)
  have "\<not> is_connected sid (on_quit sid ?s)"
    using on_quit_sockets [OF f(5), of sid] f(5)
    by (auto simp: is_connected_def split: option.splits)
  then have "handle uuid' (Disconnect sid) (on_quit sid ?s) = on_quit sid ?s"
    by (simp add: socket_close_def)
  moreover have "sent (on_quit sid ?s) = sent ?s @
           [\<lparr>dest = To_room r, event = ''message'', payload = ''*** '' @ u @ '' left the chat ***'',
             receivers = adapter_room r ?s\<rparr>]"
    by (simp add: q)
  moreover have "rooms (on_quit sid ?s) =
           AList.map_entry r (\<lambda>rm. rm\<lparr>clients := AList.delete sid (clients rm)\<rparr>) (rooms ?s)"
    by (simp add: q)
  ultimately show ?thesis
    unfolding h using on_disconnect_None [OF none] by simp
qed

theorem quit_broadcasts_one_notice_witness:
  "list_all (\<lambda>p. fst p \<noteq> []) scenario_chat
   \<and> map_of (rooms (run scenario_chat init)) ''r1''
       = Some \<lparr>passkey = None, clients = [(''b'', ''bob''), (''c'', ''carol'')]\<rparr>
   \<and> sent (handle ''u'' (Quit ''b'') (run scenario_chat init))
       = sent (run scenario_chat init) @
           [\<lparr>dest = To_room ''r1'', event = ''message'', payload = ''*** bob left the chat ***'',
             receivers = [''b'', ''c'']\<rparr>]"
proof -
  have h1: "\<forall>p \<in> set scenario_chat. fst p \<noteq> []"
    by (simp add: scenario_chat_def)
  have h2: "map_of (rooms (run scenario_chat init)) ''r1''
       = Some \<lparr>passkey = None, clients = [(''b'', ''bob''), (''c'', ''carol'')]\<rparr>"
    by code_simp
  have h3: "map_of (clients \<lparr>passkey = None, clients = [(''b'', ''bob''), (''c'', ''carol'')]\<rparr>) ''b''
       = Some ''bob''"
    by simp
  have a: "adapter_room ''r1'' (run scenario_chat init) = [''b'', ''c'']"
    by code_simp
  have l: "list_all (\<lambda>p. fst p \<noteq> []) scenario_chat"
    by (simp add: scenario_chat_def)
  from quit_broadcasts_one_notice [OF h1 h2 h3, of "''u''"] a l h2 show ?thesis
    by simp
qed

subsection \<open>Rooms without members\<close>

text \<open>A room without members stays in the registry, without members, over every event
  that is not a join of that room: a room found by \<^verbatim>\<open>findRoomForSocket\<close> has a member, so
  neither handler of a departure touches it, and the disconnect handler deletes no other
  room than the one it found.\<close>

lemma er_same: "rooms s' = rooms s \<Longrightarrow> empty_room r s' = empty_room r s"
  by (simp add: empty_room_def)

lemma er_update:
  assumes "rooms s' = AList.update uuid \<lparr>passkey = pk, clients = []\<rparr> (rooms s)"
    and "empty_room r s"
  shows "empty_room r s'"
  using assms by (simp add: empty_room_def update_conv')

lemma er_created:
  assumes "rooms s' = AList.update uuid \<lparr>passkey = pk, clients = []\<rparr> (rooms s)"
  shows "empty_room uuid s'"
  using assms by (simp add: empty_room_def update_conv')

lemma er_map_entry_other:
  assumes "r' \<noteq> r" and "rooms s' = AList.map_entry r' f (rooms s)" and "empty_room r s"
  shows "empty_room r s'"
  using assms by (simp add: empty_room_def map_of_map_entry)

lemma er_leave:
  assumes "rooms s' = AList.map_entry r' (\<lambda>rm. rm\<lparr>clients := AList.delete y (clients rm)\<rparr>) (rooms s)"
    and "empty_room r s"
  shows "empty_room r s'"
  using assms by (cases "r' = r") (auto simp: empty_room_def map_of_map_entry split: option.splits)

lemma er_delete_other:
  assumes "r' \<noteq> r" and "rooms s' = AList.delete r' (rooms s)" and "empty_room r s"
  shows "empty_room r s'"
  using assms by (simp add: empty_room_def delete_conv')

lemma leave_notice_found:
  assumes "leave_notice y s = (Some r, s1)"
  shows "\<exists>room u. map_of (rooms s) r = Some room \<and> map_of (clients room) y = Some u
           \<and> rooms s1 = AList.map_entry r
                 (\<lambda>rm. rm\<lparr>clients := AList.delete y (clients rm)\<rparr>) (rooms s)"
proof (cases "findRoomForSocket y (rooms s)")
  case None
  with assms show ?thesis by (simp add: leave_notice_def)
next
  case (Some r0)
  show ?thesis
  proof (cases "map_of (rooms s) r0")
    case None
    with Some assms show ?thesis by (simp add: leave_notice_def split: if_splits)
  next
    case rm: (Some room)
    show ?thesis
    proof (cases "map_of (clients room) y")
      case None
      with Some rm assms show ?thesis by (simp add: leave_notice_def split: if_splits)
    next
      case u: (Some username)
      show ?thesis
      proof (cases "r0 = [] \<or> username = []")
        case True
        with Some rm u have "leave_notice y s = (None, s)" by (auto simp: leave_notice_def)
        with assms show ?thesis by simp
      next
        case False
        with Some rm u assms have "r = r0"
          and "s1 = io_to_emit r0 ''message'' (''*** '' @ username @ '' left the chat ***'')
            (s\<lparr>rooms := AList.map_entry r0
                  (\<lambda>rm. rm\<lparr>clients := AList.delete y (clients rm)\<rparr>) (rooms s)\<rparr>)"
          by (auto simp: leave_notice_def)
        with rm u show ?thesis by (simp add: prim_simps)
      qed
    qed
  qed
qed

lemma er_leave_notice:
  assumes "empty_room r s"
  shows "empty_room r (snd (leave_notice y s))"
proof -
  obtain a s1 where l: "leave_notice y s = (a, s1)" by (cases "leave_notice y s")
  show ?thesis
  proof (cases a)
    case None
    with leave_notice_result [of y s] l have "s1 = s" by auto
    with l assms show ?thesis by simp
  next
    case (Some r')
    from leave_notice_found [OF l [unfolded Some]] obtain room u where
      "rooms s1 = AList.map_entry r' (\<lambda>rm. rm\<lparr>clients := AList.delete y (clients rm)\<rparr>) (rooms s)"
      by blast
    from er_leave [OF this assms] l show ?thesis by simp
  qed
qed

lemma er_on_disconnect:
  assumes "empty_room r s"
  shows "empty_room r (on_disconnect y s)"
proof -
  obtain a s1 where l: "leave_notice y s = (a, s1)" by (cases "leave_notice y s")
  with er_leave_notice [OF assms, of y] have e: "empty_room r s1" by simp
  show ?thesis
  proof (cases a)
    case None
    with l e show ?thesis by (simp add: on_disconnect_def)
  next
    case (Some r')
    from leave_notice_found [OF l [unfolded Some]] obtain room u where
      f: "map_of (rooms s) r' = Some room" "map_of (clients room) y = Some u"
      by blast
    have ne: "r' \<noteq> r"
    proof
      assume "r' = r"
      with f assms show False by (simp add: empty_room_def)
    qed
    show ?thesis
    proof (cases "map_of (rooms s1) r'")
      case None
      with l Some e show ?thesis by (simp add: on_disconnect_def)
    next
      case rm: (Some room1)
      show ?thesis
      proof (cases "clients room1 = []")
        case True
        have "rooms (s1\<lparr>rooms := AList.delete r' (rooms s1)\<rparr>) = AList.delete r' (rooms s1)" by simp
        from er_delete_other [OF ne this e] l Some rm True show ?thesis
          by (simp add: on_disconnect_def)
      next
        case False
        with l Some rm e show ?thesis by (simp add: on_disconnect_def)
      qed
    qed
  qed
qed

lemma er_socket_close:
  assumes "empty_room r s"
  shows "empty_room r (socket_close y s)"
proof (cases "is_connected y s")
  case True
  let ?s2 = "s\<lparr>sockets := AList.map_entry y (\<lambda>k. k\<lparr>joined := [], connected := False\<rparr>) (sockets s)\<rparr>"
  have "empty_room r ?s2" using assms er_same [of ?s2 s r] by simp
  from er_on_disconnect [OF this] True show ?thesis by (simp add: socket_close_def)
next
  case False
  with assms show ?thesis by (simp add: socket_close_def)
qed

lemma er_on_quit:
  assumes "empty_room r s"
  shows "empty_room r (on_quit y s)"
proof -
  let ?s2 = "set_state y (Some \<lparr>step = ''choice'', roomId = None\<rparr>) (snd (leave_notice y s))"
  have "empty_room r ?s2"
    using er_leave_notice [OF assms, of y] er_same [of ?s2 "snd (leave_notice y s)" r]
    by (simp add: prim_simps)
  from er_socket_close [OF this] show ?thesis by (simp add: on_quit_def)
qed

lemma joinRoom_rooms_eq:
  "rooms (joinRoom y rid d s) =
     (case rid of
        None \<Rightarrow> rooms s
      | Some r' \<Rightarrow>
          (case map_of (rooms s) r' of
             None \<Rightarrow> rooms s
           | Some room \<Rightarrow>
               AList.map_entry r' (\<lambda>rm. rm\<lparr>clients := AList.update y d (clients rm)\<rparr>) (rooms s)))"
  by (simp add: joinRoom_def joinRoom_missing_def joinRoom_present_def Let_def prim_simps
      split: option.split)

lemma er_joinRoom:
  assumes "empty_room r s" and "rid \<noteq> Some r"
  shows "empty_room r (joinRoom y rid d s)"
proof (cases rid)
  case None
  then have "rooms (joinRoom y rid d s) = rooms s" by (simp add: joinRoom_rooms_eq)
  from er_same [OF this, of r] assms(1) show ?thesis by simp
next
  case (Some r')
  with assms(2) have ne: "r' \<noteq> r" by simp
  show ?thesis
  proof (cases "map_of (rooms s) r'")
    case None
    with Some have "rooms (joinRoom y rid d s) = rooms s" by (simp add: joinRoom_rooms_eq)
    from er_same [OF this, of r] assms(1) show ?thesis by simp
  next
    case rm: (Some room)
    with Some have "rooms (joinRoom y rid d s) =
        AList.map_entry r' (\<lambda>rm. rm\<lparr>clients := AList.update y d (clients rm)\<rparr>) (rooms s)"
      by (simp add: joinRoom_rooms_eq)
    from er_map_entry_other [OF ne this assms(1)] show ?thesis .
  qed
qed

lemma er_hr_branch:
  assumes e: "empty_room r s"
    and nj: "\<not> (step st = ''username'' \<and> roomId st = Some r \<and> d \<noteq> [])"
  shows "empty_room r (snd (hr_branch uuid y d st s))"
proof -
  have same: "empty_room r s'" if "rooms s' = rooms s" for s'
    using er_same [OF that, of r] e by simp
  have created: "empty_room r (snd (hr_created y st (createRoom uuid y pk s)))" for pk
    by (rule er_update [OF hr_created_rooms e])
  have "empty_room r (snd (hr_choice y d st s))"
    by (rule same) (simp add: hr_choice_def prim_simps)
  moreover have "empty_room r (snd (hr_host_type uuid y d st s))"
  proof (cases "d = ''1''")
    case True
    with created show ?thesis by (simp add: hr_host_type_def)
  next
    case False
    show ?thesis by (rule same) (simp add: hr_host_type_def False prim_simps)
  qed
  moreover have "empty_room r (snd (hr_host_passkey uuid y d st s))"
  proof (cases "d = []")
    case True
    show ?thesis by (rule same) (simp add: hr_host_passkey_def True prim_simps)
  next
    case False
    with created show ?thesis by (simp add: hr_host_passkey_def)
  qed
  moreover have "empty_room r (snd (hr_connect_room y d st s))"
    by (rule same) (simp add: hr_connect_room_def prim_simps split: option.split)
  moreover have "empty_room r (snd (hr_connect_passkey y d st s))"
    by (rule same) (simp add: hr_connect_passkey_def prim_simps)
  moreover have "step st = ''username'' \<Longrightarrow> empty_room r (snd (hr_username y d st s))"
  proof (cases "d = []")
    case True
    show ?thesis by (rule same) (simp add: hr_username_def True prim_simps)
  next
    case False
    assume "step st = ''username''"
    with nj False have ne: "roomId st \<noteq> Some r" by simp
    have "rooms (snd (hr_username y d st s)) = rooms (joinRoom y (roomId st) d s)"
      using False by (simp add: hr_username_def prim_simps)
    from er_same [OF this, of r] er_joinRoom [OF e ne, of y d] show ?thesis by simp
  qed
  moreover have "empty_room r (snd (hr_invalid y st s))"
    by (rule same) (simp add: hr_invalid_def prim_simps)
  ultimately show ?thesis by (simp add: hr_branch_def)
qed

lemma handleResponse_rooms_branch:
  "rooms (handleResponse uuid y d s) =
     rooms (snd (hr_branch uuid y d
        (case socket_state y s of None \<Rightarrow> \<lparr>step = ''choice'', roomId = None\<rparr> | Some st0 \<Rightarrow> st0) s))"
  by (simp add: handleResponse_def Let_def prim_simps)

lemma er_handle:
  assumes e: "empty_room r s" and nj: "\<not> joins_room r ev s"
  shows "empty_room r (handle uuid ev s)"
proof (cases ev)
  case (Connection y)
  have "rooms (handle uuid ev s) = rooms s"
    using Connection by (simp add: connection_rooms)
  from er_same [OF this, of r] e show ?thesis by simp
next
  case (Response y d)
  show ?thesis
  proof (cases "is_connected y s")
    case False
    with Response e show ?thesis by simp
  next
    case True
    let ?st = "case socket_state y s of None \<Rightarrow> \<lparr>step = ''choice'', roomId = None\<rparr> | Some st0 \<Rightarrow> st0"
    have "\<not> (step ?st = ''username'' \<and> roomId ?st = Some r \<and> trim d \<noteq> [])"
      using nj Response True by (cases "socket_state y s") simp_all
    from er_hr_branch [OF e this, of uuid y]
      er_same [OF handleResponse_rooms_branch, of r uuid y "trim d" s]
    have "empty_room r (handleResponse uuid y (trim d) s)" by simp
    with Response True show ?thesis by (simp add: on_response_def)
  qed
next
  case (Chat_message y d)
  have "rooms (handle uuid ev s) = rooms s"
    using Chat_message by (simp add: on_chat_message_frame)
  from er_same [OF this, of r] e show ?thesis by simp
next
  case (Quit y)
  with er_on_quit [OF e, of y] e show ?thesis by simp
next
  case (Disconnect y)
  with er_socket_close [OF e, of y] show ?thesis by simp
qed

lemma er_run:
  assumes "empty_room r s" and "no_join r es s"
  shows "empty_room r (run es s)"
  using assms
proof (induction es arbitrary: s)
  case Nil
  then show ?case by simp
next
  case (Cons p es)
  from Cons.prems have "empty_room r (handle (fst p) (snd p) s)"
    by (simp add: er_handle)
  with Cons.IH Cons.prems(2) show ?case by simp
qed

lemma er_host_creates:
  assumes ic: "is_connected sid s" and ss: "socket_state sid s = Some st"
    and h: "step st = ''host_type'' \<and> trim d = ''1'' \<or> step st = ''host_passkey'' \<and> trim d \<noteq> []"
  shows "empty_room uuid (handle uuid (Response sid d) s)"
proof -
  have "\<exists>pk. rooms (snd (hr_branch uuid sid (trim d) st s)) =
          AList.update uuid \<lparr>passkey = pk, clients = []\<rparr> (rooms s)"
    using h
  proof
    assume "step st = ''host_type'' \<and> trim d = ''1''"
    then show ?thesis
      using hr_created_rooms [of sid st uuid None s] by (auto simp: hr_branch_def hr_host_type_def)
  next
    assume "step st = ''host_passkey'' \<and> trim d \<noteq> []"
    then show ?thesis
      using hr_created_rooms [of sid st uuid "Some (trim d)" s]
      by (auto simp: hr_branch_def hr_host_passkey_def)
  qed
  then obtain pk where "rooms (handleResponse uuid sid (trim d) s) =
          AList.update uuid \<lparr>passkey = pk, clients = []\<rparr> (rooms s)"
    using ss by (auto simp: handleResponse_rooms_branch)
  from er_created [OF this] ic show ?thesis by (simp add: on_response_def)
qed

text \<open>
  C1, as amended. The claim: every room in the registry has a member, and removing the
  last member, by quit or by disconnect, deletes the room. What holds instead. First, when
  a connected session at \<open>host_type\<close> answers \<open>1\<close>, or at \<open>host_passkey\<close> a non-empty
  text, the room \<^verbatim>\<open>createRoom\<close> makes is in the registry without a member, and it stays so
  after every run of later events in which no session joins it. Second, in a state reached
  from the empty server (every generated room id non-empty), when the connection of a
  member \<open>sid\<close> of room \<open>r\<close> is lost, the room is deleted in the same handler exactly if
  no other member is left, and a lookup of \<open>r\<close> then finds nothing; otherwise the room
  stays, without \<open>sid\<close>.
\<close>

theorem room_kept_until_join_deleted_on_last_disconnect:
  "(is_connected sid' s \<and> socket_state sid' s = Some st
      \<and> (step st = ''host_type'' \<and> trim d = ''1'' \<or> step st = ''host_passkey'' \<and> trim d \<noteq> [])
      \<and> no_join uuid' es' (handle uuid' (Response sid' d) s)
    \<longrightarrow> empty_room uuid' (run es' (handle uuid' (Response sid' d) s)))
   \<and> ((\<forall>p \<in> set es. fst p \<noteq> []) \<and> map_of (rooms (run es init)) r = Some rm
        \<and> map_of (clients rm) sid = Some u
    \<longrightarrow> rooms (handle uuid (Disconnect sid) (run es init)) =
           (if AList.delete sid (clients rm) = [] then AList.delete r (rooms (run es init))
            else AList.map_entry r (\<lambda>rm. rm\<lparr>clients := AList.delete sid (clients rm)\<rparr>)
                   (rooms (run es init)))
       \<and> (AList.delete sid (clients rm) = [] \<longrightarrow>
            map_of (rooms (handle uuid (Disconnect sid) (run es init))) r = None))"
proof (intro conjI impI)
  assume a: "is_connected sid' s \<and> socket_state sid' s = Some st
      \<and> (step st = ''host_type'' \<and> trim d = ''1'' \<or> step st = ''host_passkey'' \<and> trim d \<noteq> [])
      \<and> no_join uuid' es' (handle uuid' (Response sid' d) s)"
  then have "empty_room uuid' (handle uuid' (Response sid' d) s)"
    by (intro er_host_creates) blast+
  with a show "empty_room uuid' (run es' (handle uuid' (Response sid' d) s))"
    by (intro er_run) blast+
next
  let ?s = "run es init"
  assume a: "(\<forall>p \<in> set es. fst p \<noteq> []) \<and> map_of (rooms ?s) r = Some rm
        \<and> map_of (clients rm) sid = Some u"
  then have ok: "registry_ok ?s" by (intro reachable_ok) blast
  from a have rm: "map_of (rooms ?s) r = Some rm" and u: "map_of (clients rm) sid = Some u"
    by blast+
  note f = member_facts [OF ok rm u]
  note c = socket_close_member [OF f(5) registry_okD(1) [OF ok] f(1) u f(6)]
  show e: "rooms (handle uuid (Disconnect sid) ?s) =
           (if AList.delete sid (clients rm) = [] then AList.delete r (rooms ?s)
            else AList.map_entry r (\<lambda>rm. rm\<lparr>clients := AList.delete sid (clients rm)\<rparr>) (rooms ?s))"
    by (simp add: c)
  assume "AList.delete sid (clients rm) = []"
  with e show "map_of (rooms (handle uuid (Disconnect sid) ?s)) r = None"
    by (simp add: delete_conv')
qed

theorem room_kept_until_join_deleted_on_last_disconnect_witness:
  "is_connected ''h'' (run scenario_host init)
   \<and> socket_state ''h'' (run scenario_host init) = Some \<lparr>step = ''host_type'', roomId = None\<rparr>
   \<and> trim ''1'' = ''1''
   \<and> no_join ''r1'' [(''u0'', Connection ''b''), (''u0'', Response ''b'' ''2''),
                      (''u0'', Response ''b'' ''r1''), (''u0'', Quit ''h'')]
        (handle ''r1'' (Response ''h'' ''1'') (run scenario_host init))
   \<and> empty_room ''r1'' (run [(''u0'', Connection ''b''), (''u0'', Response ''b'' ''2''),
                      (''u0'', Response ''b'' ''r1''), (''u0'', Quit ''h'')]
        (handle ''r1'' (Response ''h'' ''1'') (run scenario_host init)))
   \<and> list_all (\<lambda>p. fst p \<noteq> []) scenario_one_guest
   \<and> map_of (rooms (run scenario_one_guest init)) ''r1''
       = Some \<lparr>passkey = None, clients = [(''b'', ''bob'')]\<rparr>
   \<and> AList.delete ''b'' [(''b'', ''bob'')] = []
   \<and> rooms (handle ''u'' (Disconnect ''b'') (run scenario_one_guest init)) = []
   \<and> map_of (rooms (handle ''u'' (Disconnect ''b'') (run scenario_one_guest init))) ''r1'' = None"
proof -
  let ?es = "[(''u0'', Connection ''b''), (''u0'', Response ''b'' ''2''),
              (''u0'', Response ''b'' ''r1''), (''u0'', Quit ''h'')]"
  have c1: "is_connected ''h'' (run scenario_host init)"
    by code_simp
  have c2: "socket_state ''h'' (run scenario_host init) = Some \<lparr>step = ''host_type'', roomId = None\<rparr>"
    by code_simp
  have c3: "trim ''1'' = ''1''"
    by code_simp
  have c4: "no_join ''r1'' ?es (handle ''r1'' (Response ''h'' ''1'') (run scenario_host init))"
    by code_simp
  have h1: "\<forall>p \<in> set scenario_one_guest. fst p \<noteq> []"
    by (simp add: scenario_one_guest_def)
  have h2: "map_of (rooms (run scenario_one_guest init)) ''r1''
       = Some \<lparr>passkey = None, clients = [(''b'', ''bob'')]\<rparr>"
    by code_simp
  have r: "rooms (run scenario_one_guest init) = [(''r1'', \<lparr>passkey = None, clients = [(''b'', ''bob'')]\<rparr>)]"
    by code_simp
  have l: "list_all (\<lambda>p. fst p \<noteq> []) scenario_one_guest"
    by (simp add: scenario_one_guest_def)
  note t = room_kept_until_join_deleted_on_last_disconnect
    [where sid' = "''h''" and s = "run scenario_host init"
       and st = "\<lparr>step = ''host_type'', roomId = None\<rparr>" and d = "''1''" and uuid' = "''r1''"
       and es' = ?es and es = scenario_one_guest and r = "''r1''"
       and rm = "\<lparr>passkey = None, clients = [(''b'', ''bob'')]\<rparr>" and sid = "''b''"
       and u = "''bob''" and uuid = "''u''"]
  from t c1 c2 c3 c4 have
    "empty_room ''r1'' (run ?es (handle ''r1'' (Response ''h'' ''1'') (run scenario_host init)))"
    by simp
  moreover from t h1 h2 r have
    "rooms (handle ''u'' (Disconnect ''b'') (run scenario_one_guest init)) = []"
    "map_of (rooms (handle ''u'' (Disconnect ''b'') (run scenario_one_guest init))) ''r1'' = None"
    by simp_all
  ultimately show ?thesis using c1 c2 c3 c4 l h2 by simp
qed

text \<open>The claim as stated fails: after a host has asked for an open room, the registry
  holds the room and the room has no member.\<close>

theorem created_room_has_no_member:
  "rooms (run [(''u0'', Connection ''h''), (''u0'', Response ''h'' ''1''),
               (''r1'', Response ''h'' ''1'')] init)
     = [(''r1'', \<lparr>passkey = None, clients = []\<rparr>)]"
  by code_simp

text \<open>The quit handler removes the member and makes no test of the size: the room bob
  leaves by quit stays in the registry, without a member.\<close>

lemma quit_leaves_room_without_member:
  "rooms (run (scenario_one_guest @ [(''u0'', Quit ''b'')]) init)
     = [(''r1'', \<lparr>passkey = None, clients = []\<rparr>)]"
  by code_simp

end
